theory Spec2Isabelle
  imports Complex_Main
begin

section \<open>WebSocket vocabulary shared by the two relay variants\<close>

text \<open>
  The relay (\<^verbatim>\<open>server.js\<close>) is event driven: every handler runs to completion, reads the
  ready state of the two sockets and calls \<^verbatim>\<open>send\<close> / \<^verbatim>\<open>close\<close> on them. A handler is
  modelled as a function from the pairing's variables to the updated variables and the list of
  socket calls it makes, in program order.
\<close>

datatype ready_state = CONNECTING | OPEN | CLOSING | CLOSED

text \<open>
  The \<^verbatim>\<open>reason\<close> argument of a close event or of \<^verbatim>\<open>safeClose\<close>: a JavaScript string, a
  Node \<^verbatim>\<open>Buffer\<close> (given here by its UTF-8 text), or no value (\<^verbatim>\<open>undefined\<close>). These are
  the values the WebSocket library and the relay's own call sites pass.
\<close>

datatype close_reason = ReasonString string | ReasonBuffer string | ReasonAbsent

text \<open>Calls made on one socket.\<close>

datatype ws_call = Send string | Close int string | CloseNoArgs | Ping

text \<open>Calls made by the relay, tagged with the leg they go to.\<close>

datatype action = ToClient ws_call | ToGoogle ws_call

text \<open>JavaScript truthiness of a reason: a Buffer object is always truthy, a string when non-empty.\<close>

fun truthy :: "close_reason \<Rightarrow> bool" where
  "truthy (ReasonString s) = (s \<noteq> [])"
| "truthy (ReasonBuffer b) = True"
| "truthy ReasonAbsent = False"

fun reasonToString :: "close_reason \<Rightarrow> string" where
  "reasonToString (ReasonString s) = s"
| "reasonToString (ReasonBuffer b) = b"
| "reasonToString ReasonAbsent = []"

section \<open>\<^verbatim>\<open>safeClose\<close> (minimal relay, server.js lines 15-43)\<close>

definition invalidCodes :: "int list" where
  "invalidCodes = [1005, 1006, 1015]"

text \<open>
  The code argument is \<open>Some c\<close> for a JavaScript number (close codes are integers) and
  \<open>None\<close> for any other value (\<^verbatim>\<open>typeof code === 'number'\<close> fails).
\<close>

definition validCode :: "int option \<Rightarrow> int" where
  "validCode code =
     (case code of
        None \<Rightarrow> 1000
      | Some c \<Rightarrow> if c \<ge> 1000 \<and> c \<le> 4999 \<and> c \<notin> set invalidCodes then c else 1000)"

fun validReason :: "close_reason \<Rightarrow> string" where
  "validReason (ReasonString s) = s"
| "validReason (ReasonBuffer b) = b"
| "validReason ReasonAbsent = []"

text \<open>
  \<^verbatim>\<open>ws.close(validCode, validReason)\<close> is wrapped in \<^verbatim>\<open>try\<close>; when it throws, the handler
  falls back to \<^verbatim>\<open>ws.close()\<close>. Whether the socket accepts the call is decided by the
  WebSocket library, so it is the parameter \<open>closeOk\<close>. The result lists the calls attempted.
\<close>

definition safeClose :: "(int \<Rightarrow> string \<Rightarrow> bool) \<Rightarrow> int option \<Rightarrow> close_reason \<Rightarrow> ws_call list" where
  "safeClose closeOk code reason =
     (let vc = validCode code; vr = validReason reason
      in if closeOk vc vr then [Close vc vr] else [Close vc vr, CloseNoArgs])"

section \<open>Minimal relay variant (server.js lines 60-159)\<close>

text \<open>
  What a handler reads from outside the pairing at the moment it runs: the ready state of each
  socket and whether each socket's \<^verbatim>\<open>close(code, reason)\<close> returns normally.
\<close>

record relay_env =
  clientReadyState :: ready_state
  googleReadyState :: ready_state
  clientCloseOk :: "int \<Rightarrow> string \<Rightarrow> bool"
  googleCloseOk :: "int \<Rightarrow> string \<Rightarrow> bool"

text \<open>The per-connection variables \<^verbatim>\<open>messageQueue\<close>, \<^verbatim>\<open>googleWsReady\<close>, \<^verbatim>\<open>isIntentionalDisconnect\<close>.\<close>

record relay =
  messageQueue :: "string list"
  googleWsReady :: bool
  isIntentionalDisconnect :: bool

definition newRelay :: relay where
  "newRelay = \<lparr> messageQueue = [], googleWsReady = False, isIntentionalDisconnect = False \<rparr>"

text \<open>
  The flush loop \<^verbatim>\<open>while (messageQueue.length > 0) { msg = messageQueue.shift(); googleWs.send(msg) }\<close>:
  the queue that is left and the sends made.
\<close>

fun flushQueue :: "string list \<Rightarrow> string list \<times> action list" where
  "flushQueue [] = ([], [])"
| "flushQueue (msg # rest) = (let (q, acts) = flushQueue rest in (q, ToGoogle (Send msg) # acts))"

definition google_on_open :: "relay \<Rightarrow> relay \<times> action list" where
  "google_on_open s =
     (let s1 = s\<lparr>googleWsReady := True\<rparr>;
          (q, acts) = flushQueue (messageQueue s1)
      in (s1\<lparr>messageQueue := q\<rparr>, acts))"

definition google_on_message :: "relay_env \<Rightarrow> relay \<Rightarrow> string \<Rightarrow> relay \<times> action list" where
  "google_on_message env s data =
     (if clientReadyState env = OPEN \<and> \<not> isIntentionalDisconnect s
      then (s, [ToClient (Send data)])
      else (s, []))"

definition google_on_close :: "relay_env \<Rightarrow> relay \<Rightarrow> int \<Rightarrow> close_reason \<Rightarrow> relay \<times> action list" where
  "google_on_close env s code reason =
     (if clientReadyState env = OPEN
      then (s, map ToClient (safeClose (clientCloseOk env) (Some code) reason))
      else (s, []))"

definition google_on_error :: "relay_env \<Rightarrow> relay \<Rightarrow> relay \<times> action list" where
  "google_on_error env s =
     (if clientReadyState env = OPEN
      then (s, map ToClient (safeClose (clientCloseOk env) (Some 1011) (ReasonString ''Google WS error'')))
      else (s, []))"

text \<open>
  \<open>jsonType msg\<close> stands for \<^verbatim>\<open>JSON.parse(msg).type\<close>: \<open>Some t\<close> when the frame parses and
  its \<^verbatim>\<open>type\<close> property is the string \<open>t\<close>, \<open>None\<close> when parsing or the property access
  throws (the \<^verbatim>\<open>catch\<close> branch) or the property is not a string.
\<close>

definition client_on_message ::
  "(string \<Rightarrow> string option) \<Rightarrow> relay_env \<Rightarrow> relay \<Rightarrow> string \<Rightarrow> relay \<times> action list" where
  "client_on_message jsonType env s msg =
     (if jsonType msg = Some ''disconnect''
      then (s\<lparr>isIntentionalDisconnect := True, messageQueue := []\<rparr>,
            map ToGoogle (safeClose (googleCloseOk env) (Some 1000)
                            (ReasonString ''Client requested disconnect'')))
      else if googleWsReady s \<and> googleReadyState env = OPEN \<and> \<not> isIntentionalDisconnect s
      then (s, [ToGoogle (Send msg)])
      else if \<not> isIntentionalDisconnect s
      then (s\<lparr>messageQueue := messageQueue s @ [msg]\<rparr>, [])
      else (s, []))"

definition client_on_close :: "relay_env \<Rightarrow> relay \<Rightarrow> int \<Rightarrow> close_reason \<Rightarrow> relay \<times> action list" where
  "client_on_close env s code reason =
     (let s1 = s\<lparr>messageQueue := []\<rparr>;
          s2 = (if code = 1000 then s1\<lparr>isIntentionalDisconnect := True\<rparr> else s1)
      in if googleReadyState env = OPEN
         then (s2, map ToGoogle
                     (safeClose (googleCloseOk env)
                        (Some (if isIntentionalDisconnect s2 then 1000 else code))
                        (if isIntentionalDisconnect s2
                         then ReasonString ''Client disconnected normally'' else reason)))
         else (s2, []))"

definition client_on_error :: "relay_env \<Rightarrow> relay \<Rightarrow> relay \<times> action list" where
  "client_on_error env s =
     (if googleReadyState env = OPEN
      then (s, map ToGoogle (safeClose (googleCloseOk env) (Some 1011) (ReasonString ''Client WS error'')))
      else (s, []))"

text \<open>The events the pairing's handlers are registered for, and one handler run per event.\<close>

datatype relay_event =
    GoogleOpen
  | GoogleMessage string
  | GoogleClose int close_reason
  | GoogleError
  | ClientMessage string
  | ClientClose int close_reason
  | ClientError

fun relay_step ::
  "(string \<Rightarrow> string option) \<Rightarrow> relay \<Rightarrow> relay_env \<times> relay_event \<Rightarrow> relay \<times> action list" where
  "relay_step jsonType s (env, GoogleOpen) = google_on_open s"
| "relay_step jsonType s (env, GoogleMessage d) = google_on_message env s d"
| "relay_step jsonType s (env, GoogleClose c r) = google_on_close env s c r"
| "relay_step jsonType s (env, GoogleError) = google_on_error env s"
| "relay_step jsonType s (env, ClientMessage m) = client_on_message jsonType env s m"
| "relay_step jsonType s (env, ClientClose c r) = client_on_close env s c r"
| "relay_step jsonType s (env, ClientError) = client_on_error env s"

fun relay_run ::
  "(string \<Rightarrow> string option) \<Rightarrow> relay \<Rightarrow> (relay_env \<times> relay_event) list \<Rightarrow> relay \<times> action list" where
  "relay_run jsonType s [] = (s, [])"
| "relay_run jsonType s (e # es) =
     (let (s1, a1) = relay_step jsonType s e;
          (s2, a2) = relay_run jsonType s1 es
      in (s2, a1 @ a2))"

text \<open>The frames forwarded upstream, and the frames delivered to the client, in a list of calls.\<close>

fun googleSends :: "action list \<Rightarrow> string list" where
  "googleSends [] = []"
| "googleSends (ToGoogle (Send m) # as) = m # googleSends as"
| "googleSends (a # as) = googleSends as"

fun clientSends :: "action list \<Rightarrow> string list" where
  "clientSends [] = []"
| "clientSends (ToClient (Send m) # as) = m # clientSends as"
| "clientSends (a # as) = clientSends as"

section \<open>Verbose relay variant (server.js lines 160-500)\<close>

datatype client_state = CS_CONNECTING | CS_CONNECTED | CS_DISCONNECTING | CS_DISCONNECTED

definition NORMAL_CLOSURE :: int where "NORMAL_CLOSURE = 1000"
definition GOING_AWAY :: int where "GOING_AWAY = 1001"
definition INTERNAL_ERROR :: int where "INTERNAL_ERROR = 1011"
definition SERVICE_RESTART :: int where "SERVICE_RESTART = 1012"
definition TRY_AGAIN_LATER :: int where "TRY_AGAIN_LATER = 1013"

text \<open>
  The Session Record store \<^verbatim>\<open>sessions\<close> is a \<^verbatim>\<open>Map\<close> from handle to a record whose only
  field is \<^verbatim>\<open>timestamp\<close> (milliseconds, \<^verbatim>\<open>Date.now()\<close>).
\<close>

type_synonym sessions = "string \<rightharpoonup> int"

text \<open>
  The pairing's variables \<^verbatim>\<open>clientState\<close>, \<^verbatim>\<open>sessionHandle\<close>, whether \<^verbatim>\<open>pingInterval\<close> is
  still running, and the process-wide store as the handlers see it.
\<close>

record vrelay =
  clientState :: client_state
  sessionHandle :: "string option"
  pingInterval :: bool
  sessions :: sessions

definition newVRelay :: "sessions \<Rightarrow> vrelay" where
  "newVRelay store =
     \<lparr> clientState = CS_CONNECTING, sessionHandle = None, pingInterval = True, sessions = store \<rparr>"

text \<open>
  \<^verbatim>\<open>checkForSessionResumption\<close>: \<open>setupHandle message\<close> is the handle of a setup frame that
  asks for resumption (\<^verbatim>\<open>parsedMessage.setup.sessionResumption.handle\<close>), \<open>None\<close> for any
  other frame. Only the assignment to \<^verbatim>\<open>sessionHandle\<close> is kept; the caller ignores the result.
\<close>

definition checkForSessionResumption :: "(string \<Rightarrow> string option) \<Rightarrow> vrelay \<Rightarrow> string \<Rightarrow> vrelay" where
  "checkForSessionResumption setupHandle s message =
     (case setupHandle message of
        None \<Rightarrow> s
      | Some h \<Rightarrow> s\<lparr>sessionHandle := Some h\<rparr>)"

text \<open>
  \<^verbatim>\<open>checkSessionUpdate\<close>: \<open>newHandle message\<close> is \<^verbatim>\<open>update.newHandle\<close> of a frame carrying a
  \<^verbatim>\<open>sessionResumptionUpdate\<close> with \<^verbatim>\<open>resumable\<close> and \<^verbatim>\<open>newHandle\<close> both truthy, \<open>None\<close> for
  any other frame.
\<close>

definition checkSessionUpdate :: "(string \<Rightarrow> string option) \<Rightarrow> int \<Rightarrow> vrelay \<Rightarrow> string \<Rightarrow> vrelay" where
  "checkSessionUpdate newHandle now s message =
     (case newHandle message of
        None \<Rightarrow> s
      | Some h \<Rightarrow> s\<lparr>sessionHandle := Some h, sessions := (sessions s)(h \<mapsto> now)\<rparr>)"

definition vclient_on_message ::
  "(string \<Rightarrow> string option) \<Rightarrow> relay_env \<Rightarrow> vrelay \<Rightarrow> string \<Rightarrow> vrelay \<times> action list" where
  "vclient_on_message setupHandle env s message =
     (if googleReadyState env = OPEN
      then (checkForSessionResumption setupHandle s message, [ToGoogle (Send message)])
      else (s, [ToClient (Close SERVICE_RESTART ''Backend connection unavailable, please reconnect'')]))"

text \<open>
  The verbose relay calls \<^verbatim>\<open>close(code, reason)\<close> on a socket directly, outside any
  \<^verbatim>\<open>try\<close>. When the WebSocket library refuses the call (it validates the code, see the comment
  in \<^verbatim>\<open>safeClose\<close>) the call throws, nothing catches the exception and the handler run ends
  there: the socket is not closed and the statements after the call do not run. A handler that
  makes such a call with a code it received returns \<open>Inr\<close> of the variables and the calls made
  when it runs to its end, and \<open>Inl\<close> of the exception and the variables as they are at the
  throw otherwise. The calls with the constant codes 1011 and 1012 are calls the library
  accepts and are modelled as returning.
\<close>

datatype uncaught = CloseThrew int string

definition vclient_on_close ::
  "relay_env \<Rightarrow> vrelay \<Rightarrow> int \<Rightarrow> close_reason \<Rightarrow> (uncaught \<times> vrelay) + (vrelay \<times> action list)" where
  "vclient_on_close env s code reason =
     (let s1 = s\<lparr>clientState := CS_DISCONNECTED\<rparr>
      in if googleCloseOk env code (reasonToString reason)
         then Inr (s1\<lparr>pingInterval := False\<rparr>, [ToGoogle (Close code (reasonToString reason))])
         else Inl (CloseThrew code (reasonToString reason), s1))"

definition vgoogle_on_open :: "vrelay \<Rightarrow> vrelay \<times> action list" where
  "vgoogle_on_open s = (s\<lparr>clientState := CS_CONNECTED\<rparr>, [])"

definition vgoogle_on_message ::
  "(string \<Rightarrow> string option) \<Rightarrow> int \<Rightarrow> relay_env \<Rightarrow> vrelay \<Rightarrow> string \<Rightarrow> vrelay \<times> action list" where
  "vgoogle_on_message newHandle now env s message =
     (if clientReadyState env = OPEN
      then (checkSessionUpdate newHandle now s message, [ToClient (Send message)])
      else (s, []))"

definition vclient_on_error :: "vrelay \<Rightarrow> vrelay \<times> action list" where
  "vclient_on_error s =
     (s\<lparr>pingInterval := False\<rparr>, [ToGoogle (Close INTERNAL_ERROR ''Client connection error'')])"

definition vgoogle_on_error :: "relay_env \<Rightarrow> vrelay \<Rightarrow> vrelay \<times> action list" where
  "vgoogle_on_error env s =
     (s\<lparr>pingInterval := False\<rparr>,
      if clientReadyState env = OPEN
      then [ToClient (Close INTERNAL_ERROR ''Backend service error'')] else [])"

text \<open>The callback of the 30 s keepalive interval.\<close>

definition pingTick :: "relay_env \<Rightarrow> vrelay \<Rightarrow> vrelay \<times> action list" where
  "pingTick env s = (s, if clientReadyState env = OPEN then [ToClient Ping] else [])"

text \<open>
  The upstream close handler (lines 425-450). \<^verbatim>\<open>reasonStr\<close> is
  \<^verbatim>\<open>reason ? reason.toString() : 'No reason'\<close>; a known session handle is stored again with the
  current time (an empty handle is falsy); the client leg is closed with \<^verbatim>\<open>clientWs.close\<close>
  directly, not through \<^verbatim>\<open>safeClose\<close>, and \<^verbatim>\<open>clearInterval(pingInterval)\<close> comes after that
  call.
\<close>

definition reasonStr :: "close_reason \<Rightarrow> string" where
  "reasonStr reason = (if truthy reason then reasonToString reason else ''No reason'')"

definition vgoogle_on_close ::
  "int \<Rightarrow> relay_env \<Rightarrow> vrelay \<Rightarrow> int \<Rightarrow> close_reason \<Rightarrow> (uncaught \<times> vrelay) + (vrelay \<times> action list)" where
  "vgoogle_on_close now env s code reason =
     (let s1 = (case sessionHandle s of
                  None \<Rightarrow> s
                | Some h \<Rightarrow> if h \<noteq> [] then s\<lparr>sessions := (sessions s)(h \<mapsto> now)\<rparr> else s);
          clientCode = (if code = GOING_AWAY then SERVICE_RESTART else code);
          clientReason = (if code = GOING_AWAY
                          then ''Backend service restarting, please reconnect''
                          else reasonStr reason)
      in if clientReadyState env = OPEN
         then (if clientCloseOk env clientCode clientReason
               then Inr (s1\<lparr>pingInterval := False\<rparr>, [ToClient (Close clientCode clientReason)])
               else Inl (CloseThrew clientCode clientReason, s1))
         else Inr (s1\<lparr>pingInterval := False\<rparr>, []))"

text \<open>What a handler run left behind: whether it threw, the calls it made, the variables.\<close>

fun threw :: "(uncaught \<times> vrelay) + (vrelay \<times> action list) \<Rightarrow> bool" where
  "threw (Inl e) = True"
| "threw (Inr r) = False"

fun callsOf :: "(uncaught \<times> vrelay) + (vrelay \<times> action list) \<Rightarrow> action list" where
  "callsOf (Inl e) = []"
| "callsOf (Inr r) = snd r"

fun stateOf :: "(uncaught \<times> vrelay) + (vrelay \<times> action list) \<Rightarrow> vrelay" where
  "stateOf (Inl e) = snd e"
| "stateOf (Inr r) = fst r"

subsection \<open>Session cleanup (lines 464-480)\<close>

definition expiredTime :: int where
  "expiredTime = 24 * 60 * 60 * 1000"

definition cleanupPeriod :: int where
  "cleanupPeriod = 60 * 60 * 1000"

text \<open>
  One run of the interval callback at time \<open>now\<close>: every entry with
  \<^verbatim>\<open>now - data.timestamp > expiredTime\<close> is deleted, every other entry is kept.
\<close>

definition cleanup :: "int \<Rightarrow> sessions \<Rightarrow> sessions" where
  "cleanup now store =
     (\<lambda>handle. case store handle of
                  None \<Rightarrow> None
                | Some timestamp \<Rightarrow> if now - timestamp > expiredTime then None else Some timestamp)"

text \<open>
  \<^verbatim>\<open>setInterval(..., 60 * 60 * 1000)\<close> registered at time \<open>start\<close>: the callback runs at
  \<open>start + k * cleanupPeriod\<close> for \<open>k = 1, 2, ...\<close> (a timer that fires on time). \<open>sweepTimes\<close>
  lists the runs up to and including time \<open>t\<close>.
\<close>

definition sweepTimes :: "int \<Rightarrow> int \<Rightarrow> int list" where
  "sweepTimes start t =
     map (\<lambda>k. start + int k * cleanupPeriod) [1 ..< Suc (nat ((t - start) div cleanupPeriod))]"

text \<open>
  The store at time \<open>t\<close> after \<^verbatim>\<open>sessions.set(handle, {timestamp: T})\<close> ran at time \<open>T\<close> on the
  store \<open>store\<close>, followed by every cleanup run in \<open>[T, t]\<close> and no other write.
\<close>

definition storeAt :: "int \<Rightarrow> int \<Rightarrow> string \<Rightarrow> sessions \<Rightarrow> int \<Rightarrow> sessions" where
  "storeAt start T handle store t =
     fold cleanup (filter (\<lambda>x. T \<le> x) (sweepTimes start t)) (store(handle \<mapsto> T))"

subsection \<open>Sample environments and frames used in the worked examples\<close>

definition acceptAny :: "int \<Rightarrow> string \<Rightarrow> bool" where
  "acceptAny code reason = True"

definition envOf :: "ready_state \<Rightarrow> ready_state \<Rightarrow> relay_env" where
  "envOf c g =
     \<lparr> clientReadyState = c, googleReadyState = g, clientCloseOk = acceptAny, googleCloseOk = acceptAny \<rparr>"

text \<open>
  A socket that refuses a close code outside \<open>[1000, 4999]\<close> and the codes 1005, 1006 and
  1015: the rule written in the comment of \<^verbatim>\<open>safeClose\<close>.
\<close>

definition documentedCloseOk :: "int \<Rightarrow> string \<Rightarrow> bool" where
  "documentedCloseOk code reason = (1000 \<le> code \<and> code \<le> 4999 \<and> code \<notin> set invalidCodes)"

definition strictEnvOf :: "ready_state \<Rightarrow> ready_state \<Rightarrow> relay_env" where
  "strictEnvOf c g =
     \<lparr> clientReadyState = c, googleReadyState = g, clientCloseOk = documentedCloseOk,
       googleCloseOk = documentedCloseOk \<rparr>"

definition sampleJsonType :: "string \<Rightarrow> string option" where
  \<open>sampleJsonType m = (if m = ''{"type":"disconnect"}'' then Some ''disconnect'' else None)\<close>

definition noHandle :: "string \<Rightarrow> string option" where
  "noHandle m = None"

definition emptyStore :: sessions where
  "emptyStore = Map.empty"

text \<open>The close codes sent to the client leg in a list of calls.\<close>

fun clientCloseCodes :: "action list \<Rightarrow> int list" where
  "clientCloseCodes [] = []"
| "clientCloseCodes (ToClient (Close c r) # as) = c # clientCloseCodes as"
| "clientCloseCodes (a # as) = clientCloseCodes as"

section \<open>Client reconnection (use-live-api.ts)\<close>

definition RECONNECT_INITIAL_DELAY :: real where "RECONNECT_INITIAL_DELAY = 1000"
definition RECONNECT_MAX_DELAY :: real where "RECONNECT_MAX_DELAY = 30000"
definition RECONNECT_MAX_ATTEMPTS :: nat where "RECONNECT_MAX_ATTEMPTS = 5"

text \<open>Decimal text of a number, as a template literal prints it.\<close>

fun string_of_nat :: "nat \<Rightarrow> string" where
  "string_of_nat n =
     (if n < 10 then [''0123456789'' ! n]
      else string_of_nat (n div 10) @ [''0123456789'' ! (n mod 10)])"

declare string_of_nat.simps [simp del]

text \<open>
  The hook's React state (\<^verbatim>\<open>connected\<close>, \<^verbatim>\<open>connectionState\<close>, \<^verbatim>\<open>error\<close>) and refs
  (\<^verbatim>\<open>reconnectAttempts\<close>, \<^verbatim>\<open>reconnectTimeout\<close>, \<^verbatim>\<open>isReconnecting\<close>). \<open>reconnectTimeout\<close> is
  \<open>None\<close> for \<^verbatim>\<open>null\<close> and \<open>Some d\<close> for the timer created by \<^verbatim>\<open>window.setTimeout(..., d)\<close>.
\<close>

record live_api =
  connected :: bool
  connectionState :: string
  error :: "string option"
  reconnectAttempts :: nat
  reconnectTimeout :: "real option"
  isReconnecting :: bool

definition newLiveAPI :: live_api where
  "newLiveAPI =
     \<lparr> connected = False, connectionState = ''disconnected'', error = None,
       reconnectAttempts = 0, reconnectTimeout = None, isReconnecting = False \<rparr>"

text \<open>The fields \<^verbatim>\<open>ev.code\<close> and \<^verbatim>\<open>ev.reason\<close> of the \<^verbatim>\<open>CloseEvent\<close>.\<close>

record close_event =
  evCode :: nat
  evReason :: string

text \<open>\<open>random\<close> is the value returned by \<^verbatim>\<open>Math.random()\<close>, a number in \<open>[0, 1)\<close>.\<close>

definition getReconnectDelay :: "real \<Rightarrow> live_api \<Rightarrow> real" where
  "getReconnectDelay random s =
     (let attempt = reconnectAttempts s;
          delay = min (RECONNECT_INITIAL_DELAY * 2 ^ attempt) RECONNECT_MAX_DELAY
      in delay + random * 1000)"

definition onOpen :: "live_api \<Rightarrow> live_api" where
  "onOpen s =
     s\<lparr>connectionState := ''connected'', error := None, reconnectAttempts := 0,
       isReconnecting := False\<rparr>"

definition onClose :: "real \<Rightarrow> close_event \<Rightarrow> live_api \<Rightarrow> live_api" where
  "onClose random ev s =
     (let s1 = s\<lparr>connected := False, connectionState := ''disconnected''\<rparr>
      in if evCode ev = 1000 then s1
         else if evCode ev = 1012 \<or> evCode ev = 1013
         then (if reconnectAttempts s1 < RECONNECT_MAX_ATTEMPTS
               then s1\<lparr>connectionState := ''reconnecting'',
                       reconnectTimeout := Some (getReconnectDelay random s1)\<rparr>
               else s1\<lparr>connectionState := ''error'',
                       error := Some (''Maximum reconnection attempts (''
                                      @ string_of_nat RECONNECT_MAX_ATTEMPTS @ '') reached'')\<rparr>)
         else s1\<lparr>connectionState := ''error'',
                 error := Some (''Connection closed: ''
                                @ (if evReason ev \<noteq> [] then evReason ev
                                   else ''Code '' @ string_of_nat (evCode ev)))\<rparr>)"

text \<open>
  The reconnect timer's callback, up to the first \<^verbatim>\<open>await\<close> of the \<^verbatim>\<open>connect\<close> it calls:
  the attempt counter is incremented and \<^verbatim>\<open>connect\<close> sets the state to connecting.
\<close>

definition reconnectTimerFired :: "live_api \<Rightarrow> live_api" where
  "reconnectTimerFired s =
     s\<lparr>reconnectAttempts := reconnectAttempts s + 1, isReconnecting := True,
       connectionState := ''connecting'', error := None\<rparr>"

section \<open>Audio capture (live-api-client.js, AudioProcessingWorklet and the ScriptProcessor fallback)\<close>

definition AUDIO_BUFFER_SIZE :: nat where "AUDIO_BUFFER_SIZE = 2048"

text \<open>
  A captured sample is a 32-bit float, a dyadic rational; \<^verbatim>\<open>float32Array[i] * 32768\<close> is
  computed in double precision and is exact for samples in \<open>[-1, 1]\<close> (a multiplication by a
  power of two), so samples and products are modelled as reals.
\<close>

definition int16Value :: "real \<Rightarrow> real" where
  "int16Value sample = max (- 32768) (min 32767 (sample * 32768))"

text \<open>
  Storing a number into an \<^verbatim>\<open>Int16Array\<close> element applies ECMAScript's ToInt16: the
  fraction is dropped (truncation toward zero) and the integer is reduced modulo \<open>2^16\<close> into
  \<open>[-32768, 32767]\<close>.
\<close>

definition truncateToward0 :: "real \<Rightarrow> int" where
  "truncateToward0 v = (if v < 0 then \<lceil>v\<rceil> else \<lfloor>v\<rfloor>)"

definition toInt16 :: "real \<Rightarrow> int" where
  "toInt16 v = (let m = truncateToward0 v mod 65536 in if m \<ge> 32768 then m - 65536 else m)"

definition sampleToInt16 :: "real \<Rightarrow> int" where
  "sampleToInt16 sample = toInt16 (int16Value sample)"

text \<open>
  The write buffer (\<^verbatim>\<open>Int16Array\<close> of \<^verbatim>\<open>AUDIO_BUFFER_SIZE\<close> elements) and the write cursor.
  A store past the end of a typed array is ignored, like \<open>xs[i := v]\<close> out of range.
\<close>

record recorder =
  buffer :: "int list"
  bufferWriteIndex :: nat

definition newRecorder :: recorder where
  "newRecorder = \<lparr> buffer = replicate AUDIO_BUFFER_SIZE 0, bufferWriteIndex = 0 \<rparr>"

text \<open>
  One iteration of the loop body: store the converted sample, advance the cursor, and when
  the cursor has reached the buffer's length emit \<^verbatim>\<open>buffer.slice(0, bufferWriteIndex)\<close> and
  reset the cursor. The result carries the chunks emitted by this iteration (none or one).
\<close>

definition storeSample :: "recorder \<Rightarrow> real \<Rightarrow> recorder \<times> int list list" where
  "storeSample r sample =
     (let b = (buffer r)[bufferWriteIndex r := sampleToInt16 sample];
          i = bufferWriteIndex r + 1
      in if i \<ge> length b
         then (\<lparr> buffer = b, bufferWriteIndex = 0 \<rparr>, [take i b])
         else (\<lparr> buffer = b, bufferWriteIndex = i \<rparr>, []))"

fun processChunk :: "recorder \<Rightarrow> real list \<Rightarrow> recorder \<times> int list list" where
  "processChunk r [] = (r, [])"
| "processChunk r (sample # rest) =
     (let (r1, c1) = storeSample r sample;
          (r2, c2) = processChunk r1 rest
      in (r2, c1 @ c2))"

text \<open>Several calls in a row (one per render quantum or ScriptProcessor buffer).\<close>

fun processChunks :: "recorder \<Rightarrow> real list list \<Rightarrow> recorder \<times> int list list" where
  "processChunks r [] = (r, [])"
| "processChunks r (xs # xss) =
     (let (r1, c1) = processChunk r xs;
          (r2, c2) = processChunks r1 xss
      in (r2, c1 @ c2))"

section \<open>Audio playback scheduler (live-api-client.js, class AudioStreamer)\<close>

definition AUDIO_OUTPUT_SAMPLE_RATE :: real where "AUDIO_OUTPUT_SAMPLE_RATE = 24000"

text \<open>Set once by the constructor and never assigned again.\<close>

definition bufferSize :: nat where "bufferSize = 7680"
definition initialBufferTime :: real where "initialBufferTime = 1 / 10"
definition SCHEDULE_AHEAD_TIME :: real where "SCHEDULE_AHEAD_TIME = 2 / 10"

text \<open>
  What a method reads from the Web Audio context when it runs: the audio clock
  \<^verbatim>\<open>audioContext.currentTime\<close> (seconds; one reading per call), whether the context and its
  gain node exist with the context in state \<^verbatim>\<open>'running'\<close>, and \<^verbatim>\<open>gainNode.gain.value\<close>.
\<close>

record audio_env =
  currentTime :: real
  running :: bool
  gainValue :: real

text \<open>
  What a method asks of the platform, in program order: \<open>SourceStart id data t\<close> is a new
  buffer source holding \<open>data\<close>, connected to the gain node, with \<^verbatim>\<open>source.start(t)\<close>; the two
  gain constructors are the automation calls on \<^verbatim>\<open>gainNode.gain\<close>.
\<close>

datatype effect =
    SourceStart nat "real list" real
  | SetInterval
  | ClearInterval
  | SetTimeout real
  | GainSetValueAtTime real real
  | GainLinearRampToValueAtTime real real
  | EmitEnded
  | VuDisconnect

text \<open>
  The streamer's fields. \<open>checkInterval\<close> and \<open>vuScriptProcessor\<close> record whether the field is
  non-null; buffer sources are identified by a running number (\<open>sourceCount\<close> sources were
  created so far), \<open>onendedSource\<close> is the source whose \<^verbatim>\<open>onended\<close> handler is set.
\<close>

record streamer =
  sampleRate :: real
  audioQueue :: "real list list"
  isPlaying :: bool
  scheduledTime :: real
  processingBuffer :: "real list"
  checkInterval :: bool
  endOfQueueAudioSource :: "nat option"
  onendedSource :: "nat option"
  vuScriptProcessor :: bool
  sourceCount :: nat

text \<open>The constructor followed by \<^verbatim>\<open>init()\<close> in ScriptProcessor mode.\<close>

definition newAudioStreamer :: "real \<Rightarrow> streamer" where
  "newAudioStreamer rate =
     \<lparr> sampleRate = rate, audioQueue = [], isPlaying = False, scheduledTime = 0,
       processingBuffer = [], checkInterval = False, endOfQueueAudioSource = None,
       onendedSource = None, vuScriptProcessor = True, sourceCount = 0 \<rparr>"

text \<open>
  \<^verbatim>\<open>dataView.getInt16(i * 2, true)\<close>: two bytes, little-endian, read as a signed 16-bit number;
  \<open>decodePCM16\<close> is the conversion loop over the decoded base64 payload (a trailing odd byte is
  not read).
\<close>

definition getInt16 :: "nat \<Rightarrow> nat \<Rightarrow> int" where
  "getInt16 lo hi =
     (let u = int (lo mod 256) + 256 * int (hi mod 256) in if u \<ge> 32768 then u - 65536 else u)"

fun decodePCM16 :: "nat list \<Rightarrow> real list" where
  "decodePCM16 (lo # hi # rest) = real_of_int (getInt16 lo hi) / 32768 # decodePCM16 rest"
| "decodePCM16 rest = []"

text \<open>
  The slicing loop \<^verbatim>\<open>while (processingBuffer.length >= bufferSize)\<close>: the reassembly buffer
  and the queue after it.
\<close>

function sliceBlocks :: "real list \<Rightarrow> real list list \<Rightarrow> real list \<times> real list list" where
  "sliceBlocks pb q =
     (if length pb \<ge> bufferSize
      then sliceBlocks (drop bufferSize pb) (q @ [take bufferSize pb])
      else (pb, q))"
  by pat_completeness auto
termination
  by (relation "measure (\<lambda>(pb, q). length pb)") (auto simp: bufferSize_def)

declare sliceBlocks.simps [simp del]

text \<open>
  One round of the scheduling loop of \<^verbatim>\<open>scheduleNextBuffer\<close>, for the head block
  \<open>audioData\<close> of the queue and the rest \<open>rest\<close>: the block is taken off the queue, its source
  is created, the end-of-queue tag is moved, the source is started at
  \<open>max scheduledTime currentTime\<close> and \<open>scheduledTime\<close> advances by the block's duration
  \<open>length / sampleRate\<close>.
\<close>

definition scheduleBlock :: "real \<Rightarrow> streamer \<Rightarrow> real list \<Rightarrow> real list list \<Rightarrow> streamer \<times> effect" where
  "scheduleBlock now s audioData rest =
     (let source = sourceCount s;
          s1 = s\<lparr>audioQueue := rest, sourceCount := source + 1\<rparr>;
          s2 = (case endOfQueueAudioSource s1 of
                  None \<Rightarrow> s1
                | Some e \<Rightarrow> if onendedSource s1 = Some e then s1\<lparr>onendedSource := None\<rparr> else s1);
          s3 = (if rest = [] \<and> length (processingBuffer s2) < bufferSize
                then s2\<lparr>endOfQueueAudioSource := Some source, onendedSource := Some source\<rparr>
                else s2);
          startTime = max (scheduledTime s3) now
      in (s3\<lparr>scheduledTime := startTime + real (length audioData) / sampleRate s3\<rparr>,
          SourceStart source audioData startTime))"

text \<open>
  The loop \<^verbatim>\<open>while (audioQueue.length > 0 && scheduledTime < currentTime + SCHEDULE_AHEAD_TIME)\<close>,
  by recursion on the queue (the third argument is \<open>audioQueue s\<close>).
\<close>

fun scheduleLoop :: "real \<Rightarrow> streamer \<Rightarrow> real list list \<Rightarrow> streamer \<times> effect list" where
  "scheduleLoop now s [] = (s, [])"
| "scheduleLoop now s (audioData # rest) =
     (if scheduledTime s < now + SCHEDULE_AHEAD_TIME
      then (let (s1, eff) = scheduleBlock now s audioData rest;
                (s2, effs) = scheduleLoop now s1 rest
            in (s2, eff # effs))
      else (s, []))"

definition scheduleNextBuffer :: "audio_env \<Rightarrow> streamer \<Rightarrow> streamer \<times> effect list" where
  "scheduleNextBuffer env s =
     (if \<not> running env \<or> \<not> isPlaying s then (s, [])
      else (let (s1, effs) = scheduleLoop (currentTime env) s (audioQueue s)
            in if isPlaying s1 \<and> audioQueue s1 = [] \<and> \<not> checkInterval s1
               then (s1\<lparr>checkInterval := True\<rparr>, effs @ [SetInterval])
               else if isPlaying s1 \<and> audioQueue s1 \<noteq> []
               then (s1\<lparr>checkInterval := False\<rparr>,
                     effs @ (if checkInterval s1 then [ClearInterval] else [])
                          @ [SetTimeout (max 50 ((scheduledTime s1 - currentTime env
                                                   - SCHEDULE_AHEAD_TIME * (1 / 2)) * 1000))])
               else (s1, effs)))"

definition addPCM16Data :: "audio_env \<Rightarrow> streamer \<Rightarrow> nat list \<Rightarrow> streamer \<times> effect list" where
  "addPCM16Data env s chunk =
     (if \<not> running env then (s, [])
      else (let float32Array = decodePCM16 chunk;
                (pb, q) = sliceBlocks (processingBuffer s @ float32Array) (audioQueue s);
                s1 = s\<lparr>processingBuffer := pb, audioQueue := q\<rparr>
            in if \<not> isPlaying s1 \<and> audioQueue s1 \<noteq> []
               then scheduleNextBuffer env
                      (s1\<lparr>isPlaying := True, scheduledTime := currentTime env + initialBufferTime\<rparr>)
               else if isPlaying s1 then scheduleNextBuffer env s1
               else (s1, [])))"

text \<open>The \<^verbatim>\<open>onended\<close> handler of the source \<open>source\<close>; it runs only if it is still set.\<close>

definition sourceEnded :: "streamer \<Rightarrow> nat \<Rightarrow> streamer \<times> effect list" where
  "sourceEnded s source =
     (if onendedSource s = Some source \<and> audioQueue s = []
         \<and> length (processingBuffer s) < bufferSize \<and> endOfQueueAudioSource s = Some source
      then (s\<lparr>isPlaying := False, endOfQueueAudioSource := None, checkInterval := False\<rparr>,
            EmitEnded # (if checkInterval s then [ClearInterval] else []))
      else (s, []))"

text \<open>The callback of the 50 ms check interval.\<close>

definition checkIntervalTick :: "audio_env \<Rightarrow> streamer \<Rightarrow> streamer \<times> effect list" where
  "checkIntervalTick env s =
     (if audioQueue s \<noteq> [] \<or> length (processingBuffer s) \<ge> bufferSize
      then scheduleNextBuffer env s
      else if \<not> isPlaying s then (s\<lparr>checkInterval := False\<rparr>, [ClearInterval])
      else (s, []))"

definition stop :: "audio_env \<Rightarrow> streamer \<Rightarrow> streamer \<times> effect list" where
  "stop env s =
     (s\<lparr>isPlaying := False, audioQueue := [], processingBuffer := [], checkInterval := False,
        vuScriptProcessor := False\<rparr>,
      (if checkInterval s then [ClearInterval] else [])
      @ (if running env
         then [GainSetValueAtTime (gainValue env) (currentTime env),
               GainLinearRampToValueAtTime 0 (currentTime env + 1 / 10)]
         else [])
      @ (if vuScriptProcessor s then [VuDisconnect] else []))"

text \<open>The calls and callbacks that reach a streamer, and a run of them.\<close>

datatype stream_event =
    AddPCM16Data "nat list"
  | ScheduleTimeout
  | CheckInterval
  | SourceEnded nat
  | Stop

fun streamer_step :: "streamer \<Rightarrow> audio_env \<times> stream_event \<Rightarrow> streamer \<times> effect list" where
  "streamer_step s (env, AddPCM16Data chunk) = addPCM16Data env s chunk"
| "streamer_step s (env, ScheduleTimeout) = scheduleNextBuffer env s"
| "streamer_step s (env, CheckInterval) = checkIntervalTick env s"
| "streamer_step s (env, SourceEnded source) = sourceEnded s source"
| "streamer_step s (env, Stop) = stop env s"

fun streamer_run :: "streamer \<Rightarrow> (audio_env \<times> stream_event) list \<Rightarrow> streamer \<times> effect list" where
  "streamer_run s [] = (s, [])"
| "streamer_run s (e # es) =
     (let (s1, a1) = streamer_step s e;
          (s2, a2) = streamer_run s1 es
      in (s2, a1 @ a2))"

text \<open>
  The scheduling rule in the specification's words: read along the sources started in one
  call, each block starts at the cursor, or at \<open>now\<close> if the cursor has fallen behind, and the
  cursor moves to that start plus the block's duration.
\<close>

fun startsFollowCursor :: "real \<Rightarrow> real \<Rightarrow> real \<Rightarrow> effect list \<Rightarrow> bool" where
  "startsFollowCursor now rate cursor [] = True"
| "startsFollowCursor now rate cursor (SourceStart source audioData t # effs) =
     (t = max cursor now \<and> startsFollowCursor now rate (t + real (length audioData) / rate) effs)"
| "startsFollowCursor now rate cursor (e # effs) = startsFollowCursor now rate cursor effs"

text \<open>The start times requested, and the gain automation calls, in a list of effects.\<close>

fun startTimes :: "effect list \<Rightarrow> real list" where
  "startTimes [] = []"
| "startTimes (SourceStart source audioData t # effs) = t # startTimes effs"
| "startTimes (e # effs) = startTimes effs"

fun gainCalls :: "effect list \<Rightarrow> effect list" where
  "gainCalls [] = []"
| "gainCalls (GainSetValueAtTime v t # effs) = GainSetValueAtTime v t # gainCalls effs"
| "gainCalls (GainLinearRampToValueAtTime v t # effs) = GainLinearRampToValueAtTime v t # gainCalls effs"
| "gainCalls (e # effs) = gainCalls effs"

text \<open>The cursor after the sources started in a list of effects, from the cursor before them.\<close>

fun cursorAfter :: "real \<Rightarrow> real \<Rightarrow> effect list \<Rightarrow> real" where
  "cursorAfter rate cursor [] = cursor"
| "cursorAfter rate cursor (SourceStart source audioData t # effs) =
     cursorAfter rate (t + real (length audioData) / rate) effs"
| "cursorAfter rate cursor (e # effs) = cursorAfter rate cursor effs"

subsection \<open>Sample inputs used in the worked examples\<close>

text \<open>
  A running context with the gain at 1 read at clock time \<open>t\<close>, and a payload of 15360 zero
  bytes: one block (7680 samples) of silence.
\<close>

definition audioAt :: "real \<Rightarrow> audio_env" where
  "audioAt t = \<lparr> currentTime = t, running = True, gainValue = 1 \<rparr>"

definition silentChunk :: "nat list" where
  "silentChunk = replicate 15360 0"

text \<open>A playing streamer whose cursor (1 s) is behind the clock, with one block queued.\<close>

definition sampleStreamer :: streamer where
  "sampleStreamer =
     (newAudioStreamer 24000)\<lparr>isPlaying := True, scheduledTime := 1, audioQueue := [replicate 7680 0]\<rparr>"

text \<open>
  A playing streamer with two blocks queued (silence, then a block of full-scale samples) whose
  cursor equals the clock at 1 s.
\<close>

definition twoBlockStreamer :: streamer where
  "twoBlockStreamer =
     (newAudioStreamer 24000)\<lparr>isPlaying := True, scheduledTime := 1,
        audioQueue := [replicate 7680 0, replicate 7680 1]\<rparr>"

section \<open>Properties of \<^verbatim>\<open>safeClose\<close>\<close>

lemma validCode_invalid:
  "c \<in> {1005, 1006, 1015} \<Longrightarrow> validCode (Some c) = 1000"
  by (auto simp: validCode_def invalidCodes_def)

lemma validCode_pass:
  "1000 \<le> c \<Longrightarrow> c \<le> 4999 \<Longrightarrow> c \<notin> {1005, 1006, 1015} \<Longrightarrow> validCode (Some c) = c"
  by (auto simp: validCode_def invalidCodes_def)

text \<open>
  C3. For every integer code \<open>c\<close> in \<open>[1000, 4999]\<close>, \<^verbatim>\<open>safeClose\<close> asks the socket to close
  with the normal-closure code 1000 when \<open>c\<close> is 1005, 1006 or 1015, and with \<open>c\<close> itself
  otherwise; that request is the first call it makes, and the only one when the socket
  accepts it.
\<close>

theorem safeClose_code:
  assumes "1000 \<le> c" and "c \<le> 4999"
  shows "hd (safeClose closeOk (Some c) reason) =
           Close (if c \<in> {1005, 1006, 1015} then 1000 else c) (validReason reason)
       \<and> (closeOk (if c \<in> {1005, 1006, 1015} then 1000 else c) (validReason reason) \<longrightarrow>
            safeClose closeOk (Some c) reason =
              [Close (if c \<in> {1005, 1006, 1015} then 1000 else c) (validReason reason)])"
proof -
  have vc: "validCode (Some c) = (if c \<in> {1005, 1006, 1015} then 1000 else c)"
    using assms validCode_invalid [of c] validCode_pass [of c] by (simp split: if_splits)
  show ?thesis
    unfolding safeClose_def Let_def vc by simp
qed

theorem safeClose_code_witness:
  "(1000::int) \<le> 1006 \<and> (1006::int) \<le> 4999
   \<and> hd (safeClose acceptAny (Some 1006) (ReasonBuffer ''gone'')) = Close 1000 ''gone''
   \<and> safeClose acceptAny (Some 1006) (ReasonBuffer ''gone'') = [Close 1000 ''gone'']
   \<and> hd (safeClose acceptAny (Some 4000) (ReasonString ''app'')) = Close 4000 ''app''
   \<and> safeClose acceptAny (Some 4000) (ReasonString ''app'') = [Close 4000 ''app'']"
  using safeClose_code [of 1006 acceptAny "ReasonBuffer ''gone''"]
        safeClose_code [of 4000 acceptAny "ReasonString ''app''"]
  by (simp add: acceptAny_def)

section \<open>Properties of the minimal relay\<close>

lemma flushQueue_eq: "flushQueue q = ([], map (\<lambda>m. ToGoogle (Send m)) q)"
  by (induction q) auto

lemma googleSends_append: "googleSends (xs @ ys) = googleSends xs @ googleSends ys"
  by (induction xs rule: googleSends.induct) auto

lemma clientSends_append: "clientSends (xs @ ys) = clientSends xs @ clientSends ys"
  by (induction xs rule: clientSends.induct) auto

lemma googleSends_map_Send: "googleSends (map (\<lambda>m. ToGoogle (Send m)) q) = q"
  by (induction q) auto

lemma googleSends_safeClose_google: "googleSends (map ToGoogle (safeClose ok c r)) = []"
  by (simp add: safeClose_def Let_def)

lemma googleSends_safeClose_client: "googleSends (map ToClient (safeClose ok c r)) = []"
  by (simp add: safeClose_def Let_def)

lemma clientSends_safeClose_google: "clientSends (map ToGoogle (safeClose ok c r)) = []"
  by (simp add: safeClose_def Let_def)

lemma clientSends_safeClose_client: "clientSends (map ToClient (safeClose ok c r)) = []"
  by (simp add: safeClose_def Let_def)

lemma relay_run_append:
  "relay_run jt s (es @ fs) =
     (let (s1, a1) = relay_run jt s es; (s2, a2) = relay_run jt s1 fs in (s2, a1 @ a2))"
  by (induction es arbitrary: s) (auto simp: Let_def split: prod.splits)

text \<open>
  While the upstream leg has not opened and no disconnect notice has been seen, each client
  frame is appended to the queue and nothing is sent, whatever the sockets' ready states are.
\<close>

lemma queue_phase:
  assumes "\<not> googleWsReady s" and "\<not> isIntentionalDisconnect s"
    and "\<forall>m \<in> set ms. jt m \<noteq> Some ''disconnect''"
    and "length envs = length ms"
  shows "relay_run jt s (zip envs (map ClientMessage ms)) =
           (s\<lparr>messageQueue := messageQueue s @ ms\<rparr>, [])"
  using assms
proof (induction ms arbitrary: s envs)
  case Nil
  then show ?case by simp
next
  case (Cons m ms)
  then obtain e es where envs: "envs = e # es" by (cases envs) auto
  let ?s1 = "s\<lparr>messageQueue := messageQueue s @ [m]\<rparr>"
  have step: "client_on_message jt e s m = (?s1, [])"
    using Cons.prems by (simp add: client_on_message_def)
  have "relay_run jt ?s1 (zip es (map ClientMessage ms)) =
          (?s1\<lparr>messageQueue := messageQueue ?s1 @ ms\<rparr>, [])"
    using Cons.prems envs by (intro Cons.IH) auto
  then show ?case using envs step by simp
qed

text \<open>
  C2 (minimal relay variant). For any frames \<open>ms\<close> that arrive before the upstream leg opens,
  none of them a disconnect notice, nothing is sent while they arrive, and the open handler
  sends exactly \<open>ms\<close> upstream, in arrival order, leaving the queue empty: over the whole run
  each frame is forwarded once.
\<close>

theorem minimal_relay_flushes_queue_in_order:
  assumes "\<forall>m \<in> set ms. jsonType m \<noteq> Some ''disconnect''"
    and "length envs = length ms"
  shows "relay_run jsonType newRelay (zip envs (map ClientMessage ms)) =
           (newRelay\<lparr>messageQueue := ms\<rparr>, [])
       \<and> google_on_open (newRelay\<lparr>messageQueue := ms\<rparr>) =
           (newRelay\<lparr>googleWsReady := True\<rparr>, map (\<lambda>m. ToGoogle (Send m)) ms)
       \<and> googleSends (snd (relay_run jsonType newRelay
             (zip envs (map ClientMessage ms) @ [(env, GoogleOpen)]))) = ms"
proof -
  have q: "relay_run jsonType newRelay (zip envs (map ClientMessage ms)) =
             (newRelay\<lparr>messageQueue := ms\<rparr>, [])"
    using queue_phase [of newRelay ms jsonType envs] assms by (simp add: newRelay_def)
  have o: "google_on_open (newRelay\<lparr>messageQueue := ms\<rparr>) =
             (newRelay\<lparr>googleWsReady := True\<rparr>, map (\<lambda>m. ToGoogle (Send m)) ms)"
    by (simp add: google_on_open_def flushQueue_eq newRelay_def)
  have "googleSends (snd (relay_run jsonType newRelay
             (zip envs (map ClientMessage ms) @ [(env, GoogleOpen)]))) = ms"
    by (simp add: relay_run_append q o googleSends_map_Send)
  with q o show ?thesis by simp
qed

theorem minimal_relay_flushes_queue_in_order_witness:
  "sampleJsonType ''a'' \<noteq> Some ''disconnect'' \<and> sampleJsonType ''b'' \<noteq> Some ''disconnect''
   \<and> length [envOf OPEN CONNECTING, envOf OPEN CONNECTING, envOf OPEN OPEN] = length [''a'', ''b'', ''a'']
   \<and> googleSends (snd (relay_run sampleJsonType newRelay
         (zip [envOf OPEN CONNECTING, envOf OPEN CONNECTING, envOf OPEN OPEN]
              (map ClientMessage [''a'', ''b'', ''a'']) @ [(envOf OPEN OPEN, GoogleOpen)])))
       = [''a'', ''b'', ''a'']"
  using minimal_relay_flushes_queue_in_order
          [of "[''a'', ''b'', ''a'']" sampleJsonType
              "[envOf OPEN CONNECTING, envOf OPEN CONNECTING, envOf OPEN OPEN]" "envOf OPEN OPEN"]
  by (simp add: sampleJsonType_def)

text \<open>
  C2, verbose relay variant. It has no queue: a frame that arrives while the upstream leg is still
  connecting is not forwarded, neither then nor when the upstream leg opens; the client leg is
  closed with code 1012 instead.
\<close>

theorem verbose_relay_drops_early_frame:
  "snd (vclient_on_message noHandle (envOf OPEN CONNECTING) (newVRelay emptyStore) ''a'') =
     [ToClient (Close 1012 ''Backend connection unavailable, please reconnect'')]
   \<and> googleSends
        (snd (vclient_on_message noHandle (envOf OPEN CONNECTING) (newVRelay emptyStore) ''a'')
         @ snd (vgoogle_on_open
                  (fst (vclient_on_message noHandle (envOf OPEN CONNECTING) (newVRelay emptyStore) ''a''))))
       \<noteq> [''a'']"
  by (simp add: vclient_on_message_def vgoogle_on_open_def envOf_def SERVICE_RESTART_def)

text \<open>
  The same for every frame, state and environment in which the upstream leg is not open: the
  frame is not forwarded and the variables are unchanged, and the open handler sends nothing.
\<close>

lemma verbose_relay_never_queues:
  assumes "googleReadyState env \<noteq> OPEN"
  shows "vclient_on_message setupHandle env s message =
           (s, [ToClient (Close 1012 ''Backend connection unavailable, please reconnect'')])
       \<and> snd (vgoogle_on_open s) = []"
  using assms by (simp add: vclient_on_message_def vgoogle_on_open_def SERVICE_RESTART_def)

text \<open>Once the flag is set and the queue is empty, no handler sends a frame on either leg.\<close>

lemma step_after_disconnect:
  assumes "isIntentionalDisconnect s" and "messageQueue s = []"
  shows "isIntentionalDisconnect (fst (relay_step jt s e))
       \<and> messageQueue (fst (relay_step jt s e)) = []
       \<and> googleSends (snd (relay_step jt s e)) = []
       \<and> clientSends (snd (relay_step jt s e)) = []"
proof (cases e)
  case (Pair env ev)
  show ?thesis
    using assms unfolding Pair
    by (cases ev)
       (auto simp: google_on_open_def google_on_message_def google_on_close_def
          google_on_error_def client_on_message_def client_on_close_def client_on_error_def
          Let_def googleSends_safeClose_google googleSends_safeClose_client
          clientSends_safeClose_google clientSends_safeClose_client)
qed

lemma run_after_disconnect:
  assumes "isIntentionalDisconnect s" and "messageQueue s = []"
  shows "isIntentionalDisconnect (fst (relay_run jt s es))
       \<and> messageQueue (fst (relay_run jt s es)) = []
       \<and> googleSends (snd (relay_run jt s es)) = []
       \<and> clientSends (snd (relay_run jt s es)) = []"
  using assms
proof (induction es arbitrary: s)
  case Nil
  then show ?case by simp
next
  case (Cons e es)
  from step_after_disconnect [OF Cons.prems, of jt e] Cons.IH [of "fst (relay_step jt s e)"]
  show ?case
    by (auto simp: Let_def googleSends_append clientSends_append split: prod.splits)
qed

text \<open>
  C10. When the minimal relay receives a client frame that parses to a disconnect notice, in
  any state and whatever the sockets' ready states, the handler sets the
  intentional-disconnect flag and sends no frame; and over every later sequence of events
  (client frames, upstream frames, opens, closes, errors) no frame is sent upstream, no frame
  is delivered to the client, the queue stays empty and the flag stays set.
\<close>

theorem minimal_relay_disconnect_discards_all:
  assumes "jsonType d = Some ''disconnect''"
  shows "isIntentionalDisconnect (fst (client_on_message jsonType env s d))
       \<and> googleSends (snd (client_on_message jsonType env s d)) = []
       \<and> clientSends (snd (client_on_message jsonType env s d)) = []
       \<and> googleSends (snd (relay_run jsonType (fst (client_on_message jsonType env s d)) es)) = []
       \<and> clientSends (snd (relay_run jsonType (fst (client_on_message jsonType env s d)) es)) = []
       \<and> messageQueue (fst (relay_run jsonType (fst (client_on_message jsonType env s d)) es)) = []
       \<and> isIntentionalDisconnect
           (fst (relay_run jsonType (fst (client_on_message jsonType env s d)) es))"
proof -
  let ?s1 = "fst (client_on_message jsonType env s d)"
  have s1: "isIntentionalDisconnect ?s1" "messageQueue ?s1 = []"
    using assms by (simp_all add: client_on_message_def)
  have a1: "googleSends (snd (client_on_message jsonType env s d)) = []"
           "clientSends (snd (client_on_message jsonType env s d)) = []"
    using assms
    by (simp_all add: client_on_message_def googleSends_safeClose_google clientSends_safeClose_google)
  from run_after_disconnect [OF s1, of jsonType es] s1 a1 show ?thesis by simp
qed

theorem minimal_relay_disconnect_discards_all_witness:
  \<open>sampleJsonType ''{"type":"disconnect"}'' = Some ''disconnect''
   \<and> googleSends (snd (relay_run sampleJsonType
        (fst (client_on_message sampleJsonType (envOf OPEN OPEN)
                (newRelay\<lparr>messageQueue := [''x''], googleWsReady := True\<rparr>) ''{"type":"disconnect"}''))
        [(envOf OPEN OPEN, ClientMessage ''y''), (envOf OPEN OPEN, GoogleMessage ''z''),
         (envOf OPEN OPEN, GoogleOpen)])) = []
   \<and> clientSends (snd (relay_run sampleJsonType
        (fst (client_on_message sampleJsonType (envOf OPEN OPEN)
                (newRelay\<lparr>messageQueue := [''x''], googleWsReady := True\<rparr>) ''{"type":"disconnect"}''))
        [(envOf OPEN OPEN, ClientMessage ''y''), (envOf OPEN OPEN, GoogleMessage ''z''),
         (envOf OPEN OPEN, GoogleOpen)])) = []\<close>
  using minimal_relay_disconnect_discards_all
          [of sampleJsonType \<open>''{"type":"disconnect"}''\<close> "envOf OPEN OPEN"
              "newRelay\<lparr>messageQueue := [''x''], googleWsReady := True\<rparr>"
              "[(envOf OPEN OPEN, ClientMessage ''y''), (envOf OPEN OPEN, GoogleMessage ''z''),
                (envOf OPEN OPEN, GoogleOpen)]"]
  by (simp add: sampleJsonType_def)

text \<open>The minimal relay passes an upstream 1001 to the client unchanged.\<close>

lemma minimal_relay_passes_1001:
  "google_on_close (envOf OPEN CLOSED) s 1001 (ReasonBuffer ''bye'') = (s, [ToClient (Close 1001 ''bye'')])"
  by (simp add: google_on_close_def safeClose_def validCode_def invalidCodes_def envOf_def
        acceptAny_def)

section \<open>Properties of the verbose relay\<close>

text \<open>
  C1 (as the code has it). When the upstream leg closes while the client leg is open and the
  WebSocket library accepts the close call, the verbose relay closes the client leg with one
  call and runs to its end (the keepalive interval is cleared): the call carries code 1012
  (service restart) and the fixed reason "Backend service restarting, please reconnect" when
  the upstream code is 1001 (going away), and the upstream code unchanged with the upstream
  reason's text (or "No reason" when the reason is absent or an empty string) for every other
  code.
\<close>

theorem verbose_relay_upstream_close:
  assumes "clientReadyState env = OPEN"
    and "clientCloseOk env (if code = 1001 then 1012 else code)
           (if code = 1001 then ''Backend service restarting, please reconnect''
            else if truthy reason then reasonToString reason else ''No reason'')"
  shows "callsOf (vgoogle_on_close now env s code reason) =
           [ToClient (Close (if code = 1001 then 1012 else code)
                        (if code = 1001 then ''Backend service restarting, please reconnect''
                         else if truthy reason then reasonToString reason else ''No reason''))]
       \<and> \<not> threw (vgoogle_on_close now env s code reason)
       \<and> \<not> pingInterval (stateOf (vgoogle_on_close now env s code reason))"
  using assms
  by (cases "code = 1001"; cases "truthy reason")
     (simp_all add: vgoogle_on_close_def Let_def GOING_AWAY_def SERVICE_RESTART_def reasonStr_def)

theorem verbose_relay_upstream_close_witness:
  "clientReadyState (strictEnvOf OPEN CLOSED) = OPEN
   \<and> clientCloseOk (strictEnvOf OPEN CLOSED) 1012 ''Backend service restarting, please reconnect''
   \<and> clientCloseOk (strictEnvOf OPEN CLOSED) 1011 ''boom''
   \<and> callsOf (vgoogle_on_close 5 (strictEnvOf OPEN CLOSED) (newVRelay emptyStore) 1001
                (ReasonBuffer ''bye'')) =
       [ToClient (Close 1012 ''Backend service restarting, please reconnect'')]
   \<and> callsOf (vgoogle_on_close 5 (strictEnvOf OPEN CLOSED) (newVRelay emptyStore) 1011
                (ReasonBuffer ''boom'')) =
       [ToClient (Close 1011 ''boom'')]
   \<and> \<not> threw (vgoogle_on_close 5 (strictEnvOf OPEN CLOSED) (newVRelay emptyStore) 1011
                (ReasonBuffer ''boom''))"
  using verbose_relay_upstream_close
          [of "strictEnvOf OPEN CLOSED" 1001 "ReasonBuffer ''bye''" 5 "newVRelay emptyStore"]
        verbose_relay_upstream_close
          [of "strictEnvOf OPEN CLOSED" 1011 "ReasonBuffer ''boom''" 5 "newVRelay emptyStore"]
  by (simp add: strictEnvOf_def documentedCloseOk_def invalidCodes_def)

text \<open>
  C1, the translated code. An upstream close with code 1001 reaches the client as 1012, not as
  1013 (try again later).
\<close>

theorem verbose_relay_going_away_is_not_1013:
  "clientCloseCodes
     (callsOf (vgoogle_on_close 5 (strictEnvOf OPEN CLOSED) (newVRelay emptyStore) GOING_AWAY
                 (ReasonBuffer ''bye'')))
     = [SERVICE_RESTART]
   \<and> clientCloseCodes
     (callsOf (vgoogle_on_close 5 (strictEnvOf OPEN CLOSED) (newVRelay emptyStore) GOING_AWAY
                 (ReasonBuffer ''bye'')))
     \<noteq> [TRY_AGAIN_LATER]"
  by (simp add: vgoogle_on_close_def Let_def strictEnvOf_def documentedCloseOk_def
        invalidCodes_def GOING_AWAY_def SERVICE_RESTART_def TRY_AGAIN_LATER_def)

text \<open>
  When the library refuses the close call, the handler throws: no call closes the client leg,
  and the keepalive interval is left as it was. With the socket of \<open>strictEnvOf\<close> this happens
  for an upstream close with code 1006, which \<^verbatim>\<open>safeClose\<close> in the minimal relay would have
  replaced by 1000.
\<close>

lemma verbose_relay_refused_close_throws:
  assumes "clientReadyState env = OPEN"
    and "\<not> clientCloseOk env (if code = 1001 then 1012 else code)
           (if code = 1001 then ''Backend service restarting, please reconnect''
            else if truthy reason then reasonToString reason else ''No reason'')"
  shows "threw (vgoogle_on_close now env s code reason)
       \<and> callsOf (vgoogle_on_close now env s code reason) = []
       \<and> pingInterval (stateOf (vgoogle_on_close now env s code reason)) = pingInterval s"
  using assms
  by (cases "code = 1001"; cases "truthy reason")
     (simp_all add: vgoogle_on_close_def Let_def GOING_AWAY_def SERVICE_RESTART_def reasonStr_def
        split: option.splits)

lemma verbose_relay_abnormal_close_throws:
  "vgoogle_on_close 5 (strictEnvOf OPEN CLOSED) (newVRelay emptyStore) 1006 ReasonAbsent =
     Inl (CloseThrew 1006 ''No reason'', newVRelay emptyStore)"
  by (simp add: vgoogle_on_close_def Let_def strictEnvOf_def documentedCloseOk_def
        invalidCodes_def GOING_AWAY_def reasonStr_def newVRelay_def)

lemma verbose_relay_client_close_1005_throws:
  "vclient_on_close (strictEnvOf CLOSED OPEN) (newVRelay emptyStore) 1005 ReasonAbsent =
     Inl (CloseThrew 1005 [], (newVRelay emptyStore)\<lparr>clientState := CS_DISCONNECTED\<rparr>)"
  by (simp add: vclient_on_close_def Let_def strictEnvOf_def documentedCloseOk_def invalidCodes_def)

section \<open>Properties of the session store\<close>

lemma cleanup_keeps: "store h = Some T \<Longrightarrow> now - T \<le> expiredTime \<Longrightarrow> cleanup now store h = Some T"
  by (simp add: cleanup_def)

lemma cleanup_removes: "store h = Some T \<Longrightarrow> now - T > expiredTime \<Longrightarrow> cleanup now store h = None"
  by (simp add: cleanup_def)

lemma cleanup_absent: "store h = None \<Longrightarrow> cleanup now store h = None"
  by (simp add: cleanup_def)

lemma fold_cleanup_absent: "store h = None \<Longrightarrow> fold cleanup xs store h = None"
  by (induction xs arbitrary: store) (simp_all add: cleanup_absent)

lemma fold_cleanup_keeps:
  "store h = Some T \<Longrightarrow> \<forall>x \<in> set xs. x - T \<le> expiredTime \<Longrightarrow> fold cleanup xs store h = Some T"
  by (induction xs arbitrary: store) (simp_all add: cleanup_keeps)

lemma fold_cleanup_removes:
  "store h = Some T \<Longrightarrow> \<exists>x \<in> set xs. x - T > expiredTime \<Longrightarrow> fold cleanup xs store h = None"
proof (induction xs arbitrary: store)
  case Nil
  then show ?case by simp
next
  case (Cons x xs)
  show ?case
  proof (cases "x - T > expiredTime")
    case True
    then show ?thesis using Cons.prems(1) by (simp add: cleanup_removes fold_cleanup_absent)
  next
    case False
    then have "cleanup x store h = Some T" using Cons.prems(1) by (simp add: cleanup_keeps)
    moreover have "\<exists>y \<in> set xs. y - T > expiredTime" using Cons.prems(2) False by auto
    ultimately show ?thesis using Cons.IH by simp
  qed
qed

lemma div_mult_bounds:
  fixes a P :: int
  assumes "0 < P"
  shows "P * (a div P) \<le> a" and "a < P * (a div P) + P"
proof -
  have eq: "P * (a div P) + a mod P = a" by simp
  have m: "0 \<le> a mod P" "a mod P < P" using assms by simp_all
  show "P * (a div P) \<le> a" using eq m(1) by linarith
  show "a < P * (a div P) + P" using eq m(2) by linarith
qed

lemma le_div_of_mult_le:
  fixes k b P :: int
  assumes "0 < P" and "P * k \<le> b"
  shows "k \<le> b div P"
proof -
  have "(P * k) div P \<le> b div P" using assms by (intro zdiv_mono1) auto
  then show ?thesis using assms(1) by simp
qed

lemma sweepTimes_iff:
  "x \<in> set (sweepTimes start t) \<longleftrightarrow>
     (\<exists>k. 1 \<le> k \<and> k < Suc (nat ((t - start) div cleanupPeriod)) \<and> x = start + int k * cleanupPeriod)"
  unfolding sweepTimes_def set_map set_upt image_iff atLeastLessThan_iff Bex_def by blast

lemma sweepTimes_le:
  assumes "x \<in> set (sweepTimes start t)"
  shows "x \<le> t"
proof -
  from assms obtain k where k: "1 \<le> k" "k < Suc (nat ((t - start) div cleanupPeriod))"
      "x = start + int k * cleanupPeriod"
    unfolding sweepTimes_iff by blast
  have P: "cleanupPeriod > 0" by (simp add: cleanupPeriod_def)
  from k(1,2) have "int k \<le> (t - start) div cleanupPeriod" by linarith
  then have "cleanupPeriod * int k \<le> cleanupPeriod * ((t - start) div cleanupPeriod)"
    using P by (simp add: mult_left_mono)
  also have "\<dots> \<le> t - start" using div_mult_bounds(1) [OF P] .
  finally show ?thesis using k(3) by (simp add: mult.commute)
qed

lemma sweep_exists:
  assumes "start \<le> T" and "T + expiredTime + cleanupPeriod \<le> t"
  shows "\<exists>x \<in> set (sweepTimes start t). T \<le> x \<and> x - T > expiredTime"
proof -
  have P: "cleanupPeriod > 0" by (simp add: cleanupPeriod_def)
  have E: "expiredTime \<ge> 0" by (simp add: expiredTime_def)
  define a where "a = T + expiredTime - start"
  define q where "q = a div cleanupPeriod"
  have a0: "a \<ge> 0" using assms(1) E by (simp add: a_def)
  have q0: "q \<ge> 0" using a0 P by (simp add: q_def pos_imp_zdiv_nonneg_iff)
  have low: "cleanupPeriod * q \<le> a" and up: "a < cleanupPeriod * q + cleanupPeriod"
    using div_mult_bounds [OF P, of a] by (simp_all add: q_def)
  define k where "k = nat (q + 1)"
  define x where "x = start + int k * cleanupPeriod"
  have kq: "int k = q + 1" using q0 by (simp add: k_def)
  have xq: "x = start + cleanupPeriod * q + cleanupPeriod"
    by (simp add: x_def kq algebra_simps)
  have x_gt: "x > T + expiredTime" using up by (simp add: xq a_def)
  have x_le: "x \<le> t" using low assms(2) by (simp add: xq a_def)
  have "cleanupPeriod * int k \<le> t - start" using x_le by (simp add: x_def mult.commute)
  then have kle: "int k \<le> (t - start) div cleanupPeriod"
    by (rule le_div_of_mult_le [OF P])
  have k1: "1 \<le> k" using kq q0 by linarith
  have k2: "k < Suc (nat ((t - start) div cleanupPeriod))" using kle by linarith
  have "x \<in> set (sweepTimes start t)"
    unfolding sweepTimes_iff using k1 k2 x_def by blast
  moreover have "T \<le> x" using x_gt E by simp
  ultimately show ?thesis using x_gt by force
qed

lemma storeAt_found:
  assumes "t \<le> T + expiredTime"
  shows "storeAt start T h store t h = Some T"
  unfolding storeAt_def
proof (rule fold_cleanup_keeps)
  show "(store(h \<mapsto> T)) h = Some T" by simp
  show "\<forall>x\<in>set (filter ((\<le>) T) (sweepTimes start t)). x - T \<le> expiredTime"
    using sweepTimes_le [of _ start t] assms by fastforce
qed

lemma storeAt_evicted:
  assumes "start \<le> T" and "T + expiredTime + cleanupPeriod \<le> t"
  shows "storeAt start T h store t h = None"
  unfolding storeAt_def
proof (rule fold_cleanup_removes)
  show "(store(h \<mapsto> T)) h = Some T" by simp
  show "\<exists>x\<in>set (filter ((\<le>) T) (sweepTimes start t)). expiredTime < x - T"
    using sweep_exists [OF assms] by auto
qed

text \<open>
  C5 (as the code has it). A handle stored at time \<open>T\<close> and not written again is found by
  every lookup up to \<open>T + 24 h\<close>, so also at \<open>T + 23 h 59 min\<close>: a cleanup run at time \<open>now\<close>
  keeps it while \<open>now - T \<le> 24 h\<close> and deletes it once \<open>now - T > 24 h\<close>. Cleanup runs once
  an hour, so the record is gone from \<open>T + 25 h\<close> on (timer registered before \<open>T\<close> and firing
  on time); nothing evicts it between two runs.
\<close>

theorem session_record_retention:
  "(now - T \<le> expiredTime \<longrightarrow> cleanup now (store(h \<mapsto> T)) h = Some T)
   \<and> (now - T > expiredTime \<longrightarrow> cleanup now (store(h \<mapsto> T)) h = None)
   \<and> (t \<le> T + 24 * 60 * 60 * 1000 \<longrightarrow> storeAt start T h store t h = Some T)
   \<and> (start \<le> T \<and> T + 25 * 60 * 60 * 1000 \<le> t \<longrightarrow> storeAt start T h store t h = None)"
proof -
  have e: "T + 24 * 60 * 60 * 1000 = T + expiredTime"
    and p: "T + 25 * 60 * 60 * 1000 = T + expiredTime + cleanupPeriod"
    by (simp_all add: expiredTime_def cleanupPeriod_def)
  show ?thesis
    unfolding e p
    using storeAt_found [of t T start h store] storeAt_evicted [of start T t h store]
    by (simp add: cleanup_keeps cleanup_removes)
qed

theorem session_record_retention_witness:
  "(1800000 + 86340000 \<le> (1800000::int) + 24 * 60 * 60 * 1000)
   \<and> storeAt 0 1800000 ''h1'' emptyStore (1800000 + 86340000) ''h1'' = Some 1800000
   \<and> ((0::int) \<le> 1800000 \<and> (1800000::int) + 25 * 60 * 60 * 1000 \<le> 1800000 + 90000000)
   \<and> storeAt 0 1800000 ''h1'' emptyStore (1800000 + 90000000) ''h1'' = None
   \<and> cleanup 86400000 (emptyStore(''h1'' \<mapsto> 1800000)) ''h1'' = Some 1800000
   \<and> cleanup 90000000 (emptyStore(''h1'' \<mapsto> 1800000)) ''h1'' = None"
  using session_record_retention [of 86400000 1800000 emptyStore "''h1''" "1800000 + 86340000" 0]
        session_record_retention [of 90000000 1800000 emptyStore "''h1''" "1800000 + 90000000" 0]
  by (simp add: expiredTime_def)

text \<open>
  C5, the eviction bound of the claim. The cleanup timer is registered at time 0 and a handle
  is stored at \<open>T = 30 min\<close>. The runs up to \<open>T + 24 h 01 min\<close> are those at 1 h, ..., 24 h; at
  the last one the record is 23 h 30 min old and is kept, so a lookup at \<open>T + 24 h 01 min\<close>
  still finds it.
\<close>

theorem session_record_present_after_24h01m:
  "storeAt 0 1800000 ''h1'' emptyStore (1800000 + 86460000) ''h1'' = Some 1800000"
  unfolding storeAt_def
proof (rule fold_cleanup_keeps)
  show "(emptyStore(''h1'' \<mapsto> 1800000)) ''h1'' = Some (1800000::int)" by simp
  have "x \<le> 86400000" if "x \<in> set (sweepTimes 0 (1800000 + 86460000))" for x
  proof -
    from that obtain k where "k < Suc (nat ((1800000 + 86460000 - 0) div cleanupPeriod))"
      and x: "x = 0 + int k * cleanupPeriod"
      unfolding sweepTimes_iff by blast
    then have "k \<le> 24" by (simp add: cleanupPeriod_def)
    then show "x \<le> 86400000" using x by (simp add: cleanupPeriod_def)
  qed
  then show "\<forall>x\<in>set (filter ((\<le>) 1800000) (sweepTimes 0 (1800000 + 86460000))). x - 1800000 \<le> expiredTime"
    by (fastforce simp: expiredTime_def)
qed

section \<open>Properties of the reconnection handler\<close>

lemma string_of_nat_5: "string_of_nat 5 = ''5''"
  by (simp add: string_of_nat.simps)

lemma string_of_nat_1006: "string_of_nat 1006 = ''1006''"
  by (simp add: string_of_nat.simps)

text \<open>
  C4 (as the code has it). On a close of the client connection: code 1000 leaves the state
  disconnected and schedules nothing; codes 1012 and 1013 schedule a reconnect while fewer than
  5 attempts have been made, after a delay of \<open>min (1000 * 2^attempts) 30000\<close> ms plus
  \<open>random * 1000\<close> ms (less than 1 s of jitter), and with 5 attempts made they move to the
  error state with the reason "Maximum reconnection attempts (5) reached"; every other code,
  1006 (abnormal closure) included, moves to the error state with the reason
  "Connection closed: ..." and schedules nothing. The attempt counter is incremented when
  the timer fires and reset by \<^verbatim>\<open>onOpen\<close>.
\<close>

theorem onClose_reconnect_policy:
  "(evCode ev = 1000 \<longrightarrow>
      onClose random ev s = s\<lparr>connected := False, connectionState := ''disconnected''\<rparr>)
   \<and> ((evCode ev = 1012 \<or> evCode ev = 1013) \<and> reconnectAttempts s < 5 \<longrightarrow>
        connectionState (onClose random ev s) = ''reconnecting''
        \<and> reconnectTimeout (onClose random ev s) =
            Some (min (1000 * 2 ^ reconnectAttempts s) 30000 + random * 1000)
        \<and> (0 \<le> random \<and> random < 1 \<longrightarrow>
             min (1000 * 2 ^ reconnectAttempts s) 30000 \<le> getReconnectDelay random s
             \<and> getReconnectDelay random s < min (1000 * 2 ^ reconnectAttempts s) 30000 + 1000))
   \<and> ((evCode ev = 1012 \<or> evCode ev = 1013) \<and> 5 \<le> reconnectAttempts s \<longrightarrow>
        connectionState (onClose random ev s) = ''error''
        \<and> error (onClose random ev s) = Some ''Maximum reconnection attempts (5) reached''
        \<and> reconnectTimeout (onClose random ev s) = reconnectTimeout s)
   \<and> (evCode ev \<noteq> 1000 \<and> evCode ev \<noteq> 1012 \<and> evCode ev \<noteq> 1013 \<longrightarrow>
        connectionState (onClose random ev s) = ''error''
        \<and> error (onClose random ev s) =
            Some (''Connection closed: '' @
                  (if evReason ev \<noteq> [] then evReason ev else ''Code '' @ string_of_nat (evCode ev)))
        \<and> reconnectTimeout (onClose random ev s) = reconnectTimeout s)
   \<and> reconnectAttempts (reconnectTimerFired s) = reconnectAttempts s + 1
   \<and> reconnectAttempts (onOpen s) = 0"
  by (simp add: onClose_def Let_def getReconnectDelay_def RECONNECT_MAX_ATTEMPTS_def
        RECONNECT_INITIAL_DELAY_def RECONNECT_MAX_DELAY_def reconnectTimerFired_def onOpen_def
        string_of_nat_5)

theorem onClose_reconnect_policy_witness:
  "connectionState (onClose (1/4) \<lparr> evCode = 1013, evReason = ''later'' \<rparr>
      (newLiveAPI\<lparr>reconnectAttempts := 3\<rparr>)) = ''reconnecting''
   \<and> reconnectTimeout (onClose (1/4) \<lparr> evCode = 1013, evReason = ''later'' \<rparr>
      (newLiveAPI\<lparr>reconnectAttempts := 3\<rparr>)) = Some 8250
   \<and> connectionState (onClose (1/4) \<lparr> evCode = 1012, evReason = ''restart'' \<rparr>
      (newLiveAPI\<lparr>reconnectAttempts := 5\<rparr>)) = ''error''
   \<and> error (onClose (1/4) \<lparr> evCode = 1012, evReason = ''restart'' \<rparr>
      (newLiveAPI\<lparr>reconnectAttempts := 5\<rparr>)) = Some ''Maximum reconnection attempts (5) reached''
   \<and> connectionState (onClose (1/4) \<lparr> evCode = 1000, evReason = ''bye'' \<rparr>
      (newLiveAPI\<lparr>reconnectAttempts := 3\<rparr>)) = ''disconnected''
   \<and> connectionState (onClose (1/4) \<lparr> evCode = 1011, evReason = ''boom'' \<rparr>
      (newLiveAPI\<lparr>reconnectAttempts := 3\<rparr>)) = ''error''
   \<and> error (onClose (1/4) \<lparr> evCode = 1011, evReason = ''boom'' \<rparr>
      (newLiveAPI\<lparr>reconnectAttempts := 3\<rparr>)) = Some ''Connection closed: boom''"
  using onClose_reconnect_policy
          [of "\<lparr> evCode = 1013, evReason = ''later'' \<rparr>" "1/4" "newLiveAPI\<lparr>reconnectAttempts := 3\<rparr>"]
        onClose_reconnect_policy
          [of "\<lparr> evCode = 1012, evReason = ''restart'' \<rparr>" "1/4" "newLiveAPI\<lparr>reconnectAttempts := 5\<rparr>"]
        onClose_reconnect_policy
          [of "\<lparr> evCode = 1000, evReason = ''bye'' \<rparr>" "1/4" "newLiveAPI\<lparr>reconnectAttempts := 3\<rparr>"]
        onClose_reconnect_policy
          [of "\<lparr> evCode = 1011, evReason = ''boom'' \<rparr>" "1/4" "newLiveAPI\<lparr>reconnectAttempts := 3\<rparr>"]
  by simp

text \<open>
  C4, abnormal closure. A close with code 1006 and no attempt made yet ends in the error
  state with no reconnect timer: it does not trigger reconnection.
\<close>

theorem onClose_abnormal_closure_no_reconnect:
  "connectionState (onClose (1/2) \<lparr> evCode = 1006, evReason = [] \<rparr> newLiveAPI) = ''error''
   \<and> reconnectTimeout (onClose (1/2) \<lparr> evCode = 1006, evReason = [] \<rparr> newLiveAPI) = None
   \<and> error (onClose (1/2) \<lparr> evCode = 1006, evReason = [] \<rparr> newLiveAPI)
       = Some ''Connection closed: Code 1006''"
  by (simp add: onClose_def Let_def newLiveAPI_def string_of_nat_1006)

section \<open>Properties of the capture pipeline\<close>

lemma sampleToInt16_clamped:
  assumes "- 1 \<le> x" and "x \<le> 1"
  shows "sampleToInt16 x = (if 32767 \<le> x * 32768 then 32767 else truncateToward0 (x * 32768))"
    and "- 32768 \<le> sampleToInt16 x" and "sampleToInt16 x \<le> 32767"
proof -
  define v where "v = int16Value x"
  have vb: "- 32768 \<le> v" "v \<le> 32767" by (simp_all add: v_def int16Value_def)
  have v_eq: "v = (if 32767 \<le> x * 32768 then 32767 else x * 32768)"
    using assms by (auto simp: v_def int16Value_def min_def max_def)
  define t where "t = truncateToward0 v"
  have tb: "- 32768 \<le> t" "t \<le> 32767"
    using vb unfolding t_def truncateToward0_def
    by (auto simp: le_floor_iff floor_le_iff ceiling_le_iff le_ceiling_iff)
  have wrap: "toInt16 v = t"
  proof (cases "t < 0")
    case True
    have "(t + 65536) mod 65536 = t + 65536" using True tb by (intro mod_pos_pos_trivial) simp_all
    then have "t mod 65536 = t + 65536" by simp
    then show ?thesis using True tb by (simp add: toInt16_def t_def [symmetric] Let_def)
  next
    case False
    then have "t mod 65536 = t" using tb by simp
    then show ?thesis using False tb by (simp add: toInt16_def t_def [symmetric] Let_def)
  qed
  have t32767: "truncateToward0 (32767::real) = 32767" by (simp add: truncateToward0_def)
  show "sampleToInt16 x = (if 32767 \<le> x * 32768 then 32767 else truncateToward0 (x * 32768))"
    using wrap v_eq t32767 by (simp add: sampleToInt16_def v_def [symmetric] t_def)
  show "- 32768 \<le> sampleToInt16 x" "sampleToInt16 x \<le> 32767"
    using wrap tb by (simp_all add: sampleToInt16_def v_def [symmetric])
qed

lemma sampleToInt16_0: "sampleToInt16 0 = 0"
  by (simp add: sampleToInt16_def int16Value_def toInt16_def truncateToward0_def)

text \<open>
  C6 (as the code has it). For every sample \<open>x\<close> in \<open>[-1, 1]\<close> the stored 16-bit value is
  \<open>x * 32768\<close> with its fraction dropped (truncation toward zero: the floor for \<open>x \<ge> 0\<close>, the
  ceiling for \<open>x < 0\<close>), saturated at 32767 above; it lies in \<open>[-32768, 32767]\<close>.
\<close>

theorem sample_quantization_truncates:
  assumes "- 1 \<le> x" and "x \<le> 1"
  shows "(0 \<le> x \<longrightarrow> sampleToInt16 x = min 32767 \<lfloor>x * 32768\<rfloor>)
       \<and> (x < 0 \<longrightarrow> sampleToInt16 x = \<lceil>x * 32768\<rceil>)
       \<and> - 32768 \<le> sampleToInt16 x \<and> sampleToInt16 x \<le> 32767"
proof -
  note q = sampleToInt16_clamped [OF assms]
  have pos: "sampleToInt16 x = min 32767 \<lfloor>x * 32768\<rfloor>" if "0 \<le> x"
  proof (cases "32767 \<le> x * 32768")
    case True
    then have "32767 \<le> \<lfloor>x * 32768\<rfloor>" by (simp add: le_floor_iff)
    then show ?thesis using q(1) True by simp
  next
    case False
    then have "\<lfloor>x * 32768\<rfloor> < 32767" by (simp add: floor_less_iff)
    then show ?thesis using q(1) False that by (simp add: truncateToward0_def)
  qed
  have neg: "sampleToInt16 x = \<lceil>x * 32768\<rceil>" if "x < 0"
    using q(1) that by (simp add: truncateToward0_def)
  from pos neg q(2,3) show ?thesis by blast
qed

theorem sample_quantization_truncates_witness:
  "sampleToInt16 (1/2) = 16384 \<and> sampleToInt16 1 = 32767 \<and> sampleToInt16 (- 1) = - 32768
   \<and> sampleToInt16 (- 3 / 131072) = 0"
  using sample_quantization_truncates [of "1/2"] sample_quantization_truncates [of 1]
        sample_quantization_truncates [of "- 1"] sample_quantization_truncates [of "- 3 / 131072"]
  by simp

text \<open>
  C6, rounding. The sample \<open>3 / 131072\<close> is \<open>0.75 / 32768\<close>: the pipeline stores 0, while the
  nearest integer to \<open>0.75\<close> is 1.
\<close>

theorem sample_quantization_not_nearest:
  "sampleToInt16 (3 / 131072) = 0 \<and> round (3 / 131072 * 32768 :: real) = 1"
  by (simp add: sampleToInt16_def int16Value_def toInt16_def truncateToward0_def round_def)

lemma storeSample_not_full:
  assumes "Suc (bufferWriteIndex r) < length (buffer r)"
  shows "storeSample r x =
           (\<lparr> buffer = (buffer r)[bufferWriteIndex r := sampleToInt16 x],
              bufferWriteIndex = Suc (bufferWriteIndex r) \<rparr>, [])"
  using assms by (simp add: storeSample_def Let_def)

lemma storeSample_full:
  assumes "Suc (bufferWriteIndex r) = length (buffer r)"
  shows "storeSample r x =
           (\<lparr> buffer = (buffer r)[bufferWriteIndex r := sampleToInt16 x], bufferWriteIndex = 0 \<rparr>,
            [take (bufferWriteIndex r) (buffer r) @ [sampleToInt16 x]])"
proof -
  have i: "bufferWriteIndex r < length (buffer r)" using assms by simp
  have "take (Suc (bufferWriteIndex r)) ((buffer r)[bufferWriteIndex r := sampleToInt16 x]) =
          take (bufferWriteIndex r) (buffer r) @ [sampleToInt16 x]"
    using i by (simp add: take_Suc_conv_app_nth)
  then show ?thesis using assms by (simp add: storeSample_def Let_def)
qed

lemma processChunk_invariant:
  assumes "0 < N" and "length (buffer r) = N" and "bufferWriteIndex r < N"
    and "processChunk r xs = (r', cs)"
    and "all = take (bufferWriteIndex r) (buffer r) @ map sampleToInt16 xs"
  shows "length (buffer r') = N
       \<and> bufferWriteIndex r' = length all mod N
       \<and> take (bufferWriteIndex r') (buffer r') = drop (length all div N * N) all
       \<and> concat cs = take (length all div N * N) all
       \<and> (\<forall>c \<in> set cs. length c = N)"
  using assms(2-)
proof (induction xs arbitrary: r r' cs all)
  case Nil
  then show ?case using assms(1) by simp
next
  case (Cons x xs)
  let ?i = "bufferWriteIndex r"
  let ?b = "(buffer r)[?i := sampleToInt16 x]"
  show ?case
  proof (cases "Suc ?i = N")
    case False
    then have lt: "Suc ?i < length (buffer r)" using Cons.prems by simp
    let ?r1 = "\<lparr> buffer = ?b, bufferWriteIndex = Suc ?i \<rparr>"
    have st: "storeSample r x = (?r1, [])" by (rule storeSample_not_full [OF lt])
    have run: "processChunk ?r1 xs = (r', cs)"
      using Cons.prems(3) st by (simp split: prod.splits)
    have pend: "take (bufferWriteIndex ?r1) (buffer ?r1) = take ?i (buffer r) @ [sampleToInt16 x]"
      using lt by (simp add: take_Suc_conv_app_nth)
    have all1: "all = take (bufferWriteIndex ?r1) (buffer ?r1) @ map sampleToInt16 xs"
      using Cons.prems(4) pend by simp
    show ?thesis
      by (rule Cons.IH [OF _ _ run all1]) (use Cons.prems lt in simp_all)
  next
    case True
    then have full: "Suc ?i = length (buffer r)" using Cons.prems by simp
    let ?r1 = "\<lparr> buffer = ?b, bufferWriteIndex = 0 \<rparr>"
    define c where "c = take ?i (buffer r) @ [sampleToInt16 x]"
    have st: "storeSample r x = (?r1, [c])"
      unfolding c_def by (rule storeSample_full [OF full])
    obtain cs2 where run: "processChunk ?r1 xs = (r', cs2)" and cs: "cs = c # cs2"
      using Cons.prems(3) st by (auto split: prod.splits)
    have lc: "length c = N" using True Cons.prems by (simp add: c_def)
    define all1 where "all1 = map sampleToInt16 xs"
    have all1: "all1 = take (bufferWriteIndex ?r1) (buffer ?r1) @ map sampleToInt16 xs"
      by (simp add: all1_def)
    have all: "all = c @ all1" using Cons.prems(4) by (simp add: all1_def c_def)
    have IH: "length (buffer r') = N
       \<and> bufferWriteIndex r' = length all1 mod N
       \<and> take (bufferWriteIndex r') (buffer r') = drop (length all1 div N * N) all1
       \<and> concat cs2 = take (length all1 div N * N) all1
       \<and> (\<forall>c \<in> set cs2. length c = N)"
      by (rule Cons.IH [OF _ _ run all1]) (use Cons.prems assms(1) in simp_all)
    have len: "length all = N + length all1" using all lc by simp
    have dv: "length all div N = Suc (length all1 div N)"
      and md: "length all mod N = length all1 mod N"
      using assms(1) len by simp_all
    have dr: "drop (Suc (length all1 div N) * N) (c @ all1) = drop (length all1 div N * N) all1"
      using lc by simp
    have tk: "take (Suc (length all1 div N) * N) (c @ all1) = c @ take (length all1 div N * N) all1"
      using lc by simp
    from IH have i1: "length (buffer r') = N"
      and i2: "bufferWriteIndex r' = length all1 mod N"
      and i3: "take (bufferWriteIndex r') (buffer r') = drop (length all1 div N * N) all1"
      and i4: "concat cs2 = take (length all1 div N * N) all1"
      and i5: "\<forall>c \<in> set cs2. length c = N"
      by blast+
    have g2: "bufferWriteIndex r' = length all mod N" using i2 md by simp
    have g3: "take (bufferWriteIndex r') (buffer r') = drop (length all div N * N) all"
      unfolding dv unfolding all unfolding dr by (rule i3)
    have g4: "concat cs = take (length all div N * N) all"
      unfolding dv unfolding all unfolding tk by (simp add: cs i4)
    have g5: "\<forall>c \<in> set cs. length c = N" using i5 lc cs by simp
    from i1 g2 g3 g4 g5 show ?thesis by blast
  qed
qed

lemma length_concat_uniform:
  "\<forall>c \<in> set cs. length c = N \<Longrightarrow> length (concat cs) = length cs * N"
  by (induction cs) simp_all

lemma two_chunks:
  assumes "concat cs = ys" and "\<forall>c \<in> set cs. length c = N" and "length ys = 2 * N" and "0 < N"
  shows "cs = [take N ys, drop N ys]"
proof -
  have "length cs * N = 2 * N" using length_concat_uniform [OF assms(2)] assms(1,3) by simp
  then have "length cs = 2" using assms(4) by simp
  then obtain a b where cs: "cs = [a, b]"
    by (metis (no_types, opaque_lifting) One_nat_def Suc_1 length_0_conv length_Suc_conv)
  then have "length a = N" "a @ b = ys" using assms by simp_all
  then show ?thesis using cs by auto
qed

lemma processChunk_append:
  "processChunk r (xs @ ys) =
     (let (r1, c1) = processChunk r xs; (r2, c2) = processChunk r1 ys in (r2, c1 @ c2))"
  by (induction xs arbitrary: r) (auto simp: Let_def split: prod.splits)

lemma processChunks_concat: "processChunks r xss = processChunk r (concat xss)"
  by (induction xss arbitrary: r) (auto simp: processChunk_append Let_def split: prod.splits)


text \<open>
  C9. For any 5000 samples fed to a new recorder, in one call or split over several, the
  pipeline emits exactly two chunks, the first 2048 converted samples and the next 2048, and
  keeps the remaining 904 converted samples at the start of the write buffer with the write
  cursor at 904; an iteration in which the cursor reaches the buffer's length emits one chunk
  and resets the cursor to 0.
\<close>

theorem capture_5000_samples:
  assumes "length xs = 5000"
  shows "snd (processChunk newRecorder xs) =
           [map sampleToInt16 (take 2048 xs), map sampleToInt16 (take 2048 (drop 2048 xs))]
       \<and> bufferWriteIndex (fst (processChunk newRecorder xs)) = 904
       \<and> take 904 (buffer (fst (processChunk newRecorder xs))) = map sampleToInt16 (drop 4096 xs)
       \<and> (concat xss = xs \<longrightarrow> processChunks newRecorder xss = processChunk newRecorder xs)
       \<and> (Suc (bufferWriteIndex r) = length (buffer r) \<longrightarrow>
            bufferWriteIndex (fst (storeSample r x)) = 0 \<and> length (snd (storeSample r x)) = 1)"
proof -
  obtain r' cs where run: "processChunk newRecorder xs = (r', cs)" by (cases "processChunk newRecorder xs")
  define all where "all = map sampleToInt16 xs"
  have all: "all = take (bufferWriteIndex newRecorder) (buffer newRecorder) @ map sampleToInt16 xs"
    by (simp add: all_def newRecorder_def)
  have len: "length all = 5000" using assms(1) by (simp add: all_def)
  have inv: "length (buffer r') = 2048
       \<and> bufferWriteIndex r' = length all mod 2048
       \<and> take (bufferWriteIndex r') (buffer r') = drop (length all div 2048 * 2048) all
       \<and> concat cs = take (length all div 2048 * 2048) all
       \<and> (\<forall>c \<in> set cs. length c = 2048)"
    by (rule processChunk_invariant [OF _ _ _ run all])
       (simp_all add: newRecorder_def AUDIO_BUFFER_SIZE_def)
  have idx: "bufferWriteIndex r' = 904" using inv len by simp
  have rest: "take 904 (buffer r') = drop 4096 all" using inv len idx by simp
  have cc: "concat cs = take 4096 all" using inv len by simp
  have "cs = [take 2048 (take 4096 all), drop 2048 (take 4096 all)]"
    by (rule two_chunks [OF cc]) (use inv len in simp_all)
  then have "cs = [take 2048 all, take 2048 (drop 2048 all)]"
    by (simp add: drop_take)
  then have main: "cs = [map sampleToInt16 (take 2048 xs), map sampleToInt16 (take 2048 (drop 2048 xs))]"
      "take 904 (buffer r') = map sampleToInt16 (drop 4096 xs)"
    using rest by (simp_all add: all_def take_map drop_map)
  have full: "Suc (bufferWriteIndex r) = length (buffer r) \<longrightarrow>
            bufferWriteIndex (fst (storeSample r x)) = 0 \<and> length (snd (storeSample r x)) = 1"
    by (simp add: storeSample_full)
  show ?thesis using main idx full run by (simp add: processChunks_concat)
qed

theorem capture_5000_samples_witness:
  "length (replicate 5000 (0::real)) = 5000
   \<and> snd (processChunk newRecorder (replicate 5000 0)) = [replicate 2048 0, replicate 2048 0]
   \<and> bufferWriteIndex (fst (processChunk newRecorder (replicate 5000 0))) = 904
   \<and> take 904 (buffer (fst (processChunk newRecorder (replicate 5000 0)))) = replicate 904 0"
  using capture_5000_samples [of "replicate 5000 0" "[]" newRecorder 0]
  by (simp add: sampleToInt16_0)

section \<open>Properties of the playback scheduler\<close>

lemma startsFollowCursor_no_starts:
  "startTimes ys = [] \<Longrightarrow> startsFollowCursor now rate c ys"
  by (induction ys arbitrary: c rule: startTimes.induct) simp_all

lemma startsFollowCursor_append:
  "startTimes ys = [] \<Longrightarrow>
   startsFollowCursor now rate c (xs @ ys) = startsFollowCursor now rate c xs"
  by (induction now rate c xs rule: startsFollowCursor.induct)
     (simp_all add: startsFollowCursor_no_starts)

lemma cursorAfter_no_starts: "startTimes ys = [] \<Longrightarrow> cursorAfter rate c ys = c"
  by (induction ys arbitrary: c rule: startTimes.induct) simp_all

lemma cursorAfter_append:
  "startTimes ys = [] \<Longrightarrow> cursorAfter rate c (xs @ ys) = cursorAfter rate c xs"
  by (induction rate c xs rule: cursorAfter.induct) (simp_all add: cursorAfter_no_starts)

lemma startTimes_append: "startTimes (xs @ ys) = startTimes xs @ startTimes ys"
  by (induction xs rule: startTimes.induct) simp_all

lemma gainCalls_append: "gainCalls (xs @ ys) = gainCalls xs @ gainCalls ys"
  by (induction xs rule: gainCalls.induct) simp_all

lemma cursorAfter_mono:
  "startsFollowCursor now rate c effs \<Longrightarrow> 0 \<le> rate \<Longrightarrow> c \<le> cursorAfter rate c effs"
proof (induction effs arbitrary: c)
  case Nil
  then show ?case by simp
next
  case (Cons e effs)
  show ?case
  proof (cases e)
    case (SourceStart source audioData t)
    have d: "0 \<le> real (length audioData) / rate" using Cons.prems(2) by simp
    have t: "c \<le> t" and f: "startsFollowCursor now rate (t + real (length audioData) / rate) effs"
      using Cons.prems(1) SourceStart by auto
    have "t + real (length audioData) / rate \<le> cursorAfter rate (t + real (length audioData) / rate) effs"
      by (rule Cons.IH [OF f Cons.prems(2)])
    then show ?thesis using d t SourceStart by simp
  qed (use Cons in simp_all)
qed

lemma starts_not_before_now:
  "startsFollowCursor now rate c effs \<Longrightarrow> \<forall>t \<in> set (startTimes effs). now \<le> t"
  by (induction now rate c effs rule: startsFollowCursor.induct) auto

lemma scheduleBlock_props:
  "snd (scheduleBlock now s audioData rest) =
      SourceStart (sourceCount s) audioData (max (scheduledTime s) now)"
  "scheduledTime (fst (scheduleBlock now s audioData rest)) =
      max (scheduledTime s) now + real (length audioData) / sampleRate s"
  "sampleRate (fst (scheduleBlock now s audioData rest)) = sampleRate s"
  "isPlaying (fst (scheduleBlock now s audioData rest)) = isPlaying s"
  by (simp_all add: scheduleBlock_def Let_def split: option.splits)

lemma scheduleLoop_props:
  "startsFollowCursor now (sampleRate s) (scheduledTime s) (snd (scheduleLoop now s q))
   \<and> cursorAfter (sampleRate s) (scheduledTime s) (snd (scheduleLoop now s q)) =
       scheduledTime (fst (scheduleLoop now s q))
   \<and> sampleRate (fst (scheduleLoop now s q)) = sampleRate s
   \<and> isPlaying (fst (scheduleLoop now s q)) = isPlaying s
   \<and> gainCalls (snd (scheduleLoop now s q)) = []"
proof (induction q arbitrary: s)
  case Nil
  then show ?case by simp
next
  case (Cons audioData rest)
  show ?case
  proof (cases "scheduledTime s < now + SCHEDULE_AHEAD_TIME")
    case False
    then show ?thesis by simp
  next
    case True
    define s4 where "s4 = fst (scheduleBlock now s audioData rest)"
    define startTime where "startTime = max (scheduledTime s) now"
    have blk: "scheduleBlock now s audioData rest = (s4, SourceStart (sourceCount s) audioData startTime)"
      using scheduleBlock_props(1) [of now s audioData rest]
      by (simp add: s4_def startTime_def prod_eq_iff)
    have s4f: "scheduledTime s4 = startTime + real (length audioData) / sampleRate s"
       "sampleRate s4 = sampleRate s" "isPlaying s4 = isPlaying s"
      by (simp_all add: s4_def startTime_def scheduleBlock_props)
    have unf: "scheduleLoop now s (audioData # rest) =
        (fst (scheduleLoop now s4 rest),
         SourceStart (sourceCount s) audioData startTime # snd (scheduleLoop now s4 rest))"
      using True by (simp add: blk split: prod.splits)
    note IH = Cons.IH [of s4, unfolded s4f]
    show ?thesis unfolding unf using IH by (simp add: startTime_def)
  qed
qed

lemma scheduleNextBuffer_props:
  "startsFollowCursor (currentTime env) (sampleRate s) (scheduledTime s) (snd (scheduleNextBuffer env s))
   \<and> cursorAfter (sampleRate s) (scheduledTime s) (snd (scheduleNextBuffer env s)) =
       scheduledTime (fst (scheduleNextBuffer env s))
   \<and> sampleRate (fst (scheduleNextBuffer env s)) = sampleRate s
   \<and> gainCalls (snd (scheduleNextBuffer env s)) = []"
proof (cases "\<not> running env \<or> \<not> isPlaying s")
  case True
  then show ?thesis by (simp add: scheduleNextBuffer_def)
next
  case False
  obtain s1 effs where l: "scheduleLoop (currentTime env) s (audioQueue s) = (s1, effs)"
    by (cases "scheduleLoop (currentTime env) s (audioQueue s)")
  note lp = scheduleLoop_props [of "currentTime env" s "audioQueue s", unfolded l fst_conv snd_conv]
  show ?thesis using False lp
    by (simp add: scheduleNextBuffer_def l startsFollowCursor_append cursorAfter_append
          startTimes_append gainCalls_append)
qed

lemma addPCM16Data_playing:
  assumes "isPlaying s"
  shows "addPCM16Data env s chunk = (s, []) \<or>
         (\<exists>pb q. addPCM16Data env s chunk = scheduleNextBuffer env (s\<lparr>processingBuffer := pb, audioQueue := q\<rparr>))"
  using assms by (auto simp: addPCM16Data_def Let_def split: prod.splits)

lemma addPCM16Data_not_playing:
  assumes "\<not> isPlaying s"
  shows "snd (addPCM16Data env s chunk) = [] \<or>
         (\<exists>pb q. addPCM16Data env s chunk =
            scheduleNextBuffer env (s\<lparr>processingBuffer := pb, audioQueue := q, isPlaying := True,
                 scheduledTime := currentTime env + initialBufferTime\<rparr>))"
  using assms by (auto simp: addPCM16Data_def Let_def split: prod.splits)

lemma step_playing:
  assumes "isPlaying s"
  shows "startsFollowCursor (currentTime env) (sampleRate s) (scheduledTime s) (snd (streamer_step s (env, ev)))
   \<and> cursorAfter (sampleRate s) (scheduledTime s) (snd (streamer_step s (env, ev))) =
       scheduledTime (fst (streamer_step s (env, ev)))"
proof (cases ev)
  case (AddPCM16Data chunk)
  from addPCM16Data_playing [OF assms, of env chunk] show ?thesis
  proof
    assume "addPCM16Data env s chunk = (s, [])"
    then show ?thesis using AddPCM16Data by simp
  next
    assume "\<exists>pb q. addPCM16Data env s chunk = scheduleNextBuffer env (s\<lparr>processingBuffer := pb, audioQueue := q\<rparr>)"
    then obtain pb q where e: "addPCM16Data env s chunk = scheduleNextBuffer env (s\<lparr>processingBuffer := pb, audioQueue := q\<rparr>)"
      by blast
    show ?thesis
      using scheduleNextBuffer_props [of env "s\<lparr>processingBuffer := pb, audioQueue := q\<rparr>"]
      by (simp add: AddPCM16Data e)
  qed
next
  case ScheduleTimeout
  then show ?thesis using scheduleNextBuffer_props [of env s] by simp
next
  case CheckInterval
  then show ?thesis using scheduleNextBuffer_props [of env s] by (simp add: checkIntervalTick_def)
next
  case (SourceEnded source)
  then show ?thesis by (simp add: sourceEnded_def)
next
  case Stop
  then show ?thesis by (simp add: stop_def)
qed

lemma first_block:
  assumes "\<not> isPlaying s"
  shows "startsFollowCursor (currentTime env) (sampleRate s) (currentTime env + initialBufferTime)
           (snd (addPCM16Data env s chunk))"
proof -
  from addPCM16Data_not_playing [OF assms, of env chunk] show ?thesis
  proof
    assume "snd (addPCM16Data env s chunk) = []" then show ?thesis by simp
  next
    assume "\<exists>pb q. addPCM16Data env s chunk =
            scheduleNextBuffer env (s\<lparr>processingBuffer := pb, audioQueue := q, isPlaying := True,
                 scheduledTime := currentTime env + initialBufferTime\<rparr>)"
    then obtain pb q where e: "addPCM16Data env s chunk =
            scheduleNextBuffer env (s\<lparr>processingBuffer := pb, audioQueue := q, isPlaying := True,
                 scheduledTime := currentTime env + initialBufferTime\<rparr>)" by blast
    show ?thesis using scheduleNextBuffer_props [of env "s\<lparr>processingBuffer := pb, audioQueue := q, isPlaying := True,
                 scheduledTime := currentTime env + initialBufferTime\<rparr>"]
      by (simp add: e)
  qed
qed

lemma addPCM16Data_sampleRate: "sampleRate (fst (addPCM16Data env s chunk)) = sampleRate s"
proof (cases "isPlaying s")
  case True
  from addPCM16Data_playing [OF True, of env chunk] show ?thesis
    using scheduleNextBuffer_props by (elim disjE exE) simp_all
next
  case False
  show ?thesis
    unfolding addPCM16Data_def Let_def
    using scheduleNextBuffer_props by (simp split: prod.splits)
qed

lemma streamer_step_sampleRate: "sampleRate (fst (streamer_step s e)) = sampleRate s"
proof (cases e)
  case (Pair env ev)
  show ?thesis unfolding Pair
    by (cases ev)
       (simp_all add: addPCM16Data_sampleRate scheduleNextBuffer_props checkIntervalTick_def
          sourceEnded_def stop_def)
qed

lemma streamer_run_Cons:
  "fst (streamer_run s (e # es)) = fst (streamer_run (fst (streamer_step s e)) es)"
  "snd (streamer_run s (e # es)) =
     snd (streamer_step s e) @ snd (streamer_run (fst (streamer_step s e)) es)"
  by (simp_all add: case_prod_beta Let_def)

lemma step_playing_monotone:
  assumes "isPlaying s" and "0 < sampleRate s"
  shows "scheduledTime s \<le> scheduledTime (fst (streamer_step s (env, ev)))"
proof -
  note p = step_playing [OF assms(1), of env ev]
  from p have f: "startsFollowCursor (currentTime env) (sampleRate s) (scheduledTime s)
           (snd (streamer_step s (env, ev)))" by blast
  from p have c: "cursorAfter (sampleRate s) (scheduledTime s) (snd (streamer_step s (env, ev))) =
       scheduledTime (fst (streamer_step s (env, ev)))" by blast
  show ?thesis using cursorAfter_mono [OF f] assms(2) c by simp
qed

lemma run_playing_monotone:
  assumes "0 < sampleRate s"
    and "\<forall>k < length es. isPlaying (fst (streamer_run s (take k es)))"
  shows "scheduledTime s \<le> scheduledTime (fst (streamer_run s es))"
  using assms
proof (induction es arbitrary: s)
  case Nil
  then show ?case by simp
next
  case (Cons e es)
  obtain env ev where e: "e = (env, ev)" by (cases e)
  define s1 where "s1 = fst (streamer_step s e)"
  have pl: "isPlaying s" using Cons.prems(2) by (auto dest: spec [of _ 0])
  have m1: "scheduledTime s \<le> scheduledTime s1"
    using step_playing_monotone [OF pl Cons.prems(1)] by (simp add: s1_def e)
  have r1: "0 < sampleRate s1" using Cons.prems(1) by (simp add: s1_def streamer_step_sampleRate)
  have run: "fst (streamer_run s (e # xs)) = fst (streamer_run s1 xs)" for xs
    unfolding s1_def by (rule streamer_run_Cons(1))
  have "\<forall>k < length es. isPlaying (fst (streamer_run s1 (take k es)))"
  proof (intro allI impI)
    fix k assume "k < length es"
    then have "isPlaying (fst (streamer_run s (take (Suc k) (e # es))))"
      using Cons.prems(2) by (auto dest: spec [of _ "Suc k"])
    then show "isPlaying (fst (streamer_run s1 (take k es)))" by (simp only: take_Suc_Cons run)
  qed
  then have "scheduledTime s1 \<le> scheduledTime (fst (streamer_run s1 es))"
    by (rule Cons.IH [OF r1])
  then show ?case using m1 by (simp only: run)
qed

lemma scheduleBlock_queue:
  "audioQueue (fst (scheduleBlock now s audioData rest)) = rest"
  "sourceCount (fst (scheduleBlock now s audioData rest)) = sourceCount s + 1"
  by (simp_all add: scheduleBlock_def Let_def split: option.splits)

lemma scheduleLoop_head:
  assumes "scheduledTime s < now + SCHEDULE_AHEAD_TIME"
  shows "scheduleLoop now s (audioData # rest) =
           (fst (scheduleLoop now (fst (scheduleBlock now s audioData rest)) rest),
            SourceStart (sourceCount s) audioData (max (scheduledTime s) now)
              # snd (scheduleLoop now (fst (scheduleBlock now s audioData rest)) rest))"
proof -
  have blk: "scheduleBlock now s audioData rest =
      (fst (scheduleBlock now s audioData rest),
       SourceStart (sourceCount s) audioData (max (scheduledTime s) now))"
    using scheduleBlock_props(1) [of now s audioData rest] by (simp add: prod_eq_iff)
  show ?thesis
    using assms by (subst scheduleLoop.simps) (simp add: case_prod_beta scheduleBlock_props(1))
qed

lemma scheduleLoop_exit:
  assumes "q = [] \<or> now + SCHEDULE_AHEAD_TIME \<le> scheduledTime s"
  shows "scheduleLoop now s q = (s, [])"
  using assms by (cases q) auto

lemma scheduleLoop_fields:
  "sourceCount (fst (scheduleLoop now s q)) = sourceCount s + length (startTimes (snd (scheduleLoop now s q)))"
proof (induction q arbitrary: s)
  case Nil
  then show ?case by simp
next
  case (Cons audioData rest)
  show ?case
  proof (cases "scheduledTime s < now + SCHEDULE_AHEAD_TIME")
    case True
    show ?thesis
      unfolding scheduleLoop_head [OF True]
      using Cons.IH [of "fst (scheduleBlock now s audioData rest)"]
      by (simp add: scheduleBlock_queue)
  next
    case False
    then show ?thesis by simp
  qed
qed

text \<open>After the loop \<^verbatim>\<open>scheduleNextBuffer\<close> only sets or clears timers.\<close>

lemma scheduleNextBuffer_after_loop:
  assumes "running env" and "isPlaying s"
  shows "\<exists>timers. snd (scheduleNextBuffer env s) =
                     snd (scheduleLoop (currentTime env) s (audioQueue s)) @ timers
                 \<and> startTimes timers = []"
    and "scheduledTime (fst (scheduleNextBuffer env s)) =
           scheduledTime (fst (scheduleLoop (currentTime env) s (audioQueue s)))"
    and "audioQueue (fst (scheduleNextBuffer env s)) =
           audioQueue (fst (scheduleLoop (currentTime env) s (audioQueue s)))"
    and "sourceCount (fst (scheduleNextBuffer env s)) =
           sourceCount (fst (scheduleLoop (currentTime env) s (audioQueue s)))"
    and "isPlaying (fst (scheduleNextBuffer env s))"
proof -
  obtain s1 effs where l: "scheduleLoop (currentTime env) s (audioQueue s) = (s1, effs)"
    by (cases "scheduleLoop (currentTime env) s (audioQueue s)")
  have pl: "isPlaying s1"
    using scheduleLoop_props [of "currentTime env" s "audioQueue s"] l assms(2) by simp
  show "\<exists>timers. snd (scheduleNextBuffer env s) =
                     snd (scheduleLoop (currentTime env) s (audioQueue s)) @ timers
                 \<and> startTimes timers = []"
    using assms pl by (simp add: scheduleNextBuffer_def l)
  show "scheduledTime (fst (scheduleNextBuffer env s)) =
           scheduledTime (fst (scheduleLoop (currentTime env) s (audioQueue s)))"
    using assms by (simp add: scheduleNextBuffer_def l)
  show "audioQueue (fst (scheduleNextBuffer env s)) =
           audioQueue (fst (scheduleLoop (currentTime env) s (audioQueue s)))"
    using assms by (simp add: scheduleNextBuffer_def l)
  show "sourceCount (fst (scheduleNextBuffer env s)) =
           sourceCount (fst (scheduleLoop (currentTime env) s (audioQueue s)))"
    using assms by (simp add: scheduleNextBuffer_def l)
  show "isPlaying (fst (scheduleNextBuffer env s))"
    using assms pl by (simp add: scheduleNextBuffer_def l)
qed

text \<open>
  Progress: with a running context, playback active, a block queued and the cursor inside the
  look-ahead window, the head block is started at the cursor or at \<open>now\<close>, whichever is later.
\<close>

lemma scheduleNextBuffer_starts_head:
  assumes "running env" and "isPlaying s" and "audioQueue s = audioData # rest"
    and "scheduledTime s < currentTime env + SCHEDULE_AHEAD_TIME"
  shows "snd (scheduleNextBuffer env s) \<noteq> []"
    and "hd (snd (scheduleNextBuffer env s)) =
           SourceStart (sourceCount s) audioData (max (scheduledTime s) (currentTime env))"
    and "0 < sampleRate s \<Longrightarrow>
           max (scheduledTime s) (currentTime env) + real (length audioData) / sampleRate s
             \<le> scheduledTime (fst (scheduleNextBuffer env s))"
proof -
  let ?now = "currentTime env"
  let ?s4 = "fst (scheduleBlock ?now s audioData rest)"
  let ?st = "max (scheduledTime s) ?now"
  have loop: "scheduleLoop ?now s (audioQueue s) =
      (fst (scheduleLoop ?now ?s4 rest), SourceStart (sourceCount s) audioData ?st # snd (scheduleLoop ?now ?s4 rest))"
    unfolding assms(3) by (rule scheduleLoop_head [OF assms(4)])
  from scheduleNextBuffer_after_loop(1) [OF assms(1,2)] obtain timers where
    t: "snd (scheduleNextBuffer env s) = snd (scheduleLoop ?now s (audioQueue s)) @ timers"
    by blast
  show "snd (scheduleNextBuffer env s) \<noteq> []" unfolding t loop by simp
  show "hd (snd (scheduleNextBuffer env s)) = SourceStart (sourceCount s) audioData ?st"
    unfolding t loop by simp
  show "?st + real (length audioData) / sampleRate s \<le> scheduledTime (fst (scheduleNextBuffer env s))"
    if r: "0 < sampleRate s"
  proof -
    have s4: "scheduledTime ?s4 = ?st + real (length audioData) / sampleRate s"
      "sampleRate ?s4 = sampleRate s"
      by (simp_all add: scheduleBlock_props)
    note lp = scheduleLoop_props [of ?now ?s4 rest]
    have f: "startsFollowCursor ?now (sampleRate ?s4) (scheduledTime ?s4) (snd (scheduleLoop ?now ?s4 rest))"
      using lp by blast
    have c: "cursorAfter (sampleRate ?s4) (scheduledTime ?s4) (snd (scheduleLoop ?now ?s4 rest)) =
       scheduledTime (fst (scheduleLoop ?now ?s4 rest))" using lp by blast
    have "scheduledTime ?s4 \<le> scheduledTime (fst (scheduleLoop ?now ?s4 rest))"
      using cursorAfter_mono [OF f] r s4(2) c by simp
    then show ?thesis
      unfolding scheduleNextBuffer_after_loop(2) [OF assms(1,2)] loop using s4(1) by simp
  qed
qed

text \<open>
  Exactly one block is started when the queue holds no other block or the cursor after the
  block lies outside the look-ahead window; the cursor has then advanced by the block's duration.
\<close>

lemma scheduleNextBuffer_one_block:
  assumes "running env" and "isPlaying s" and "audioQueue s = audioData # rest"
    and "scheduledTime s < currentTime env + SCHEDULE_AHEAD_TIME"
    and "rest = [] \<or> currentTime env + SCHEDULE_AHEAD_TIME
           \<le> max (scheduledTime s) (currentTime env) + real (length audioData) / sampleRate s"
  shows "startTimes (snd (scheduleNextBuffer env s)) = [max (scheduledTime s) (currentTime env)]"
    and "scheduledTime (fst (scheduleNextBuffer env s)) =
           max (scheduledTime s) (currentTime env) + real (length audioData) / sampleRate s"
    and "audioQueue (fst (scheduleNextBuffer env s)) = rest"
    and "sourceCount (fst (scheduleNextBuffer env s)) = sourceCount s + 1"
proof -
  let ?now = "currentTime env"
  let ?s4 = "fst (scheduleBlock ?now s audioData rest)"
  let ?st = "max (scheduledTime s) ?now"
  have s4: "scheduledTime ?s4 = ?st + real (length audioData) / sampleRate s"
    by (simp add: scheduleBlock_props)
  have ex: "scheduleLoop ?now ?s4 rest = (?s4, [])"
    by (rule scheduleLoop_exit) (use assms(5) s4 in auto)
  have loop: "scheduleLoop ?now s (audioQueue s) = (?s4, [SourceStart (sourceCount s) audioData ?st])"
    unfolding assms(3) scheduleLoop_head [OF assms(4)] ex by simp
  from scheduleNextBuffer_after_loop(1) [OF assms(1,2)] obtain timers where
    t: "snd (scheduleNextBuffer env s) = snd (scheduleLoop ?now s (audioQueue s)) @ timers"
      "startTimes timers = []"
    by blast
  show "startTimes (snd (scheduleNextBuffer env s)) = [?st]"
    unfolding t(1) loop using t(2) by (simp add: startTimes_append)
  show "scheduledTime (fst (scheduleNextBuffer env s)) = ?st + real (length audioData) / sampleRate s"
    unfolding scheduleNextBuffer_after_loop(2) [OF assms(1,2)] loop using s4 by simp
  show "audioQueue (fst (scheduleNextBuffer env s)) = rest"
    unfolding scheduleNextBuffer_after_loop(3) [OF assms(1,2)] loop by (simp add: scheduleBlock_queue)
  show "sourceCount (fst (scheduleNextBuffer env s)) = sourceCount s + 1"
    unfolding scheduleNextBuffer_after_loop(4) [OF assms(1,2)] loop by (simp add: scheduleBlock_queue)
qed

text \<open>
  Two calls in a row: when the second call comes before the first block has ended, the second
  block starts exactly at the end of the first.
\<close>

lemma scheduleNextBuffer_next_block_at_end:
  assumes "running env" and "isPlaying s" and "audioQueue s = audioData # nextData # rest"
    and "scheduledTime s < currentTime env + SCHEDULE_AHEAD_TIME"
    and "currentTime env + SCHEDULE_AHEAD_TIME
           \<le> max (scheduledTime s) (currentTime env) + real (length audioData) / sampleRate s"
    and "running env2"
    and "currentTime env2
           \<le> max (scheduledTime s) (currentTime env) + real (length audioData) / sampleRate s"
    and "max (scheduledTime s) (currentTime env) + real (length audioData) / sampleRate s
           < currentTime env2 + SCHEDULE_AHEAD_TIME"
  shows "hd (snd (scheduleNextBuffer env2 (fst (scheduleNextBuffer env s)))) =
           SourceStart (sourceCount s + 1) nextData
             (max (scheduledTime s) (currentTime env) + real (length audioData) / sampleRate s)"
proof -
  let ?s' = "fst (scheduleNextBuffer env s)"
  let ?end = "max (scheduledTime s) (currentTime env) + real (length audioData) / sampleRate s"
  have one: "scheduledTime ?s' = ?end" "audioQueue ?s' = nextData # rest"
    "sourceCount ?s' = sourceCount s + 1"
    using scheduleNextBuffer_one_block(2,3,4) [OF assms(1,2,3,4)] assms(5) by simp_all
  have pl: "isPlaying ?s'" by (rule scheduleNextBuffer_after_loop(5) [OF assms(1,2)])
  have w: "scheduledTime ?s' < currentTime env2 + SCHEDULE_AHEAD_TIME" using one(1) assms(8) by simp
  have "hd (snd (scheduleNextBuffer env2 ?s')) =
          SourceStart (sourceCount ?s') nextData (max (scheduledTime ?s') (currentTime env2))"
    by (rule scheduleNextBuffer_starts_head(2) [OF assms(6) pl one(2) w])
  moreover have "max (scheduledTime ?s') (currentTime env2) = ?end" using one(1) assms(7) by simp
  ultimately show ?thesis using one(3) by simp
qed

text \<open>
  C7. From any state in which playback is active, whatever call or callback runs next: every
  source it starts begins at the cursor, or at the clock's \<open>now\<close> when the cursor has fallen
  behind, and the cursor then moves to that start plus the block's duration; no start is
  earlier than \<open>now\<close>; and the cursor does not decrease, in one step and along any run during
  which playback stays active. The scheduler does start blocks: with a running context, a
  block at the head of the queue and the cursor inside the look-ahead window,
  \<^verbatim>\<open>scheduleNextBuffer\<close> starts the head block at \<open>max cursor now\<close> and the cursor advances by
  at least its duration, by exactly its duration (with the block taken off the queue) when no
  further block fits the window; and when the next call comes before that block has ended,
  the next block starts exactly at the previous block's end.
\<close>

theorem playback_cursor_gapless_and_monotone:
  assumes "isPlaying s" and "0 < sampleRate s"
  shows "startsFollowCursor (currentTime env) (sampleRate s) (scheduledTime s)
           (snd (streamer_step s (env, ev)))
       \<and> scheduledTime (fst (streamer_step s (env, ev))) =
           cursorAfter (sampleRate s) (scheduledTime s) (snd (streamer_step s (env, ev)))
       \<and> (\<forall>t \<in> set (startTimes (snd (streamer_step s (env, ev)))). currentTime env \<le> t)
       \<and> scheduledTime s \<le> scheduledTime (fst (streamer_step s (env, ev)))
       \<and> ((\<forall>k < length es. isPlaying (fst (streamer_run s (take k es)))) \<longrightarrow>
            scheduledTime s \<le> scheduledTime (fst (streamer_run s es)))
       \<and> (running env \<and> audioQueue s = audioData # rest
            \<and> scheduledTime s < currentTime env + SCHEDULE_AHEAD_TIME \<longrightarrow>
            snd (scheduleNextBuffer env s) \<noteq> []
            \<and> hd (snd (scheduleNextBuffer env s)) =
                SourceStart (sourceCount s) audioData (max (scheduledTime s) (currentTime env))
            \<and> max (scheduledTime s) (currentTime env) + real (length audioData) / sampleRate s
                \<le> scheduledTime (fst (scheduleNextBuffer env s)))
       \<and> (running env \<and> audioQueue s = audioData # rest
            \<and> scheduledTime s < currentTime env + SCHEDULE_AHEAD_TIME
            \<and> (rest = [] \<or> currentTime env + SCHEDULE_AHEAD_TIME
                  \<le> max (scheduledTime s) (currentTime env)
                     + real (length audioData) / sampleRate s) \<longrightarrow>
            startTimes (snd (scheduleNextBuffer env s)) = [max (scheduledTime s) (currentTime env)]
            \<and> scheduledTime (fst (scheduleNextBuffer env s)) =
                max (scheduledTime s) (currentTime env) + real (length audioData) / sampleRate s
            \<and> audioQueue (fst (scheduleNextBuffer env s)) = rest)
       \<and> (running env \<and> audioQueue s = audioData # nextData # rest2
            \<and> scheduledTime s < currentTime env + SCHEDULE_AHEAD_TIME
            \<and> currentTime env + SCHEDULE_AHEAD_TIME
                  \<le> max (scheduledTime s) (currentTime env)
                     + real (length audioData) / sampleRate s
            \<and> running env2
            \<and> currentTime env2
                  \<le> max (scheduledTime s) (currentTime env)
                     + real (length audioData) / sampleRate s
            \<and> max (scheduledTime s) (currentTime env) + real (length audioData) / sampleRate s
                  < currentTime env2 + SCHEDULE_AHEAD_TIME \<longrightarrow>
            hd (snd (scheduleNextBuffer env2 (fst (scheduleNextBuffer env s)))) =
              SourceStart (sourceCount s + 1) nextData
                (max (scheduledTime s) (currentTime env)
                 + real (length audioData) / sampleRate s))"
proof -
  note p = step_playing [OF assms(1), of env ev]
  from p have f: "startsFollowCursor (currentTime env) (sampleRate s) (scheduledTime s)
           (snd (streamer_step s (env, ev)))" by blast
  from p have c: "scheduledTime (fst (streamer_step s (env, ev))) =
       cursorAfter (sampleRate s) (scheduledTime s) (snd (streamer_step s (env, ev)))" by simp
  have safety: "startsFollowCursor (currentTime env) (sampleRate s) (scheduledTime s)
           (snd (streamer_step s (env, ev)))
       \<and> scheduledTime (fst (streamer_step s (env, ev))) =
           cursorAfter (sampleRate s) (scheduledTime s) (snd (streamer_step s (env, ev)))
       \<and> (\<forall>t \<in> set (startTimes (snd (streamer_step s (env, ev)))). currentTime env \<le> t)
       \<and> scheduledTime s \<le> scheduledTime (fst (streamer_step s (env, ev)))
       \<and> ((\<forall>k < length es. isPlaying (fst (streamer_run s (take k es)))) \<longrightarrow>
            scheduledTime s \<le> scheduledTime (fst (streamer_run s es)))"
    using f c step_playing_monotone [OF assms, of env ev] starts_not_before_now [OF f]
      run_playing_monotone [OF assms(2), of es]
    by blast
  have head: "running env \<and> audioQueue s = audioData # rest
            \<and> scheduledTime s < currentTime env + SCHEDULE_AHEAD_TIME \<longrightarrow>
            snd (scheduleNextBuffer env s) \<noteq> []
            \<and> hd (snd (scheduleNextBuffer env s)) =
                SourceStart (sourceCount s) audioData (max (scheduledTime s) (currentTime env))
            \<and> max (scheduledTime s) (currentTime env) + real (length audioData) / sampleRate s
                \<le> scheduledTime (fst (scheduleNextBuffer env s))"
    using scheduleNextBuffer_starts_head [of env s audioData rest] assms by blast
  have one: "running env \<and> audioQueue s = audioData # rest
            \<and> scheduledTime s < currentTime env + SCHEDULE_AHEAD_TIME
            \<and> (rest = [] \<or> currentTime env + SCHEDULE_AHEAD_TIME
                  \<le> max (scheduledTime s) (currentTime env)
                     + real (length audioData) / sampleRate s) \<longrightarrow>
            startTimes (snd (scheduleNextBuffer env s)) = [max (scheduledTime s) (currentTime env)]
            \<and> scheduledTime (fst (scheduleNextBuffer env s)) =
                max (scheduledTime s) (currentTime env) + real (length audioData) / sampleRate s
            \<and> audioQueue (fst (scheduleNextBuffer env s)) = rest"
    using scheduleNextBuffer_one_block(1,2,3) [of env s audioData rest] assms(1) by blast
  have chain: "running env \<and> audioQueue s = audioData # nextData # rest2
            \<and> scheduledTime s < currentTime env + SCHEDULE_AHEAD_TIME
            \<and> currentTime env + SCHEDULE_AHEAD_TIME
                  \<le> max (scheduledTime s) (currentTime env)
                     + real (length audioData) / sampleRate s
            \<and> running env2
            \<and> currentTime env2
                  \<le> max (scheduledTime s) (currentTime env)
                     + real (length audioData) / sampleRate s
            \<and> max (scheduledTime s) (currentTime env) + real (length audioData) / sampleRate s
                  < currentTime env2 + SCHEDULE_AHEAD_TIME \<longrightarrow>
            hd (snd (scheduleNextBuffer env2 (fst (scheduleNextBuffer env s)))) =
              SourceStart (sourceCount s + 1) nextData
                (max (scheduledTime s) (currentTime env)
                 + real (length audioData) / sampleRate s)"
    using scheduleNextBuffer_next_block_at_end [of env s audioData nextData rest2 env2] assms(1)
    by blast
  from safety head one chain show ?thesis by blast
qed

theorem playback_cursor_gapless_and_monotone_witness:
  "isPlaying sampleStreamer \<and> 0 < sampleRate sampleStreamer
   \<and> startsFollowCursor 2 24000 1 (snd (streamer_step sampleStreamer (audioAt 2, ScheduleTimeout)))
   \<and> scheduledTime sampleStreamer
       \<le> scheduledTime (fst (streamer_step sampleStreamer (audioAt 2, ScheduleTimeout)))
   \<and> running (audioAt 2) \<and> audioQueue sampleStreamer = [replicate 7680 0]
   \<and> scheduledTime sampleStreamer < currentTime (audioAt 2) + SCHEDULE_AHEAD_TIME
   \<and> hd (snd (scheduleNextBuffer (audioAt 2) sampleStreamer)) = SourceStart 0 (replicate 7680 0) 2
   \<and> startTimes (snd (scheduleNextBuffer (audioAt 2) sampleStreamer)) = [2]
   \<and> scheduledTime (fst (scheduleNextBuffer (audioAt 2) sampleStreamer)) = 58 / 25
   \<and> audioQueue (fst (scheduleNextBuffer (audioAt 2) sampleStreamer)) = []
   \<and> isPlaying twoBlockStreamer \<and> 0 < sampleRate twoBlockStreamer
   \<and> audioQueue twoBlockStreamer = [replicate 7680 0, replicate 7680 1]
   \<and> hd (snd (scheduleNextBuffer (audioAt 1) twoBlockStreamer)) = SourceStart 0 (replicate 7680 0) 1
   \<and> hd (snd (scheduleNextBuffer (audioAt (6 / 5)) (fst (scheduleNextBuffer (audioAt 1) twoBlockStreamer))))
       = SourceStart 1 (replicate 7680 1) (33 / 25)"
  using playback_cursor_gapless_and_monotone
          [where s = sampleStreamer and env = "audioAt 2" and ev = ScheduleTimeout and es = "[]"
             and audioData = "replicate 7680 0" and rest = "[]"]
        playback_cursor_gapless_and_monotone
          [where s = twoBlockStreamer and env = "audioAt 1" and ev = ScheduleTimeout and es = "[]"
             and audioData = "replicate 7680 0" and rest = "[replicate 7680 1]"
             and nextData = "replicate 7680 1" and ?rest2.0 = "[]" and ?env2.0 = "audioAt (6 / 5)"]
  by (simp add: sampleStreamer_def twoBlockStreamer_def newAudioStreamer_def audioAt_def
        SCHEDULE_AHEAD_TIME_def)

text \<open>
  The same step evaluated: the cursor (1 s) is behind the clock (2 s), so the block starts at
  2 s and the cursor moves to 2.32 s.
\<close>

lemma scheduleNextBuffer_clamps_to_now:
  "scheduleNextBuffer (audioAt 2) sampleStreamer =
     (sampleStreamer\<lparr>audioQueue := [], sourceCount := 1, endOfQueueAudioSource := Some 0,
        onendedSource := Some 0, scheduledTime := 58 / 25, checkInterval := True\<rparr>,
      [SourceStart 0 (replicate 7680 0) 2, SetInterval])"
  by (simp add: scheduleNextBuffer_def scheduleBlock_def Let_def SCHEDULE_AHEAD_TIME_def
        sampleStreamer_def newAudioStreamer_def audioAt_def bufferSize_def)

section \<open>Stopping the playback scheduler\<close>

lemma decodePCM16_zeros: "decodePCM16 (replicate (2 * n) 0) = replicate n 0"
  by (induction n) (simp_all add: getInt16_def)

lemma decode_silentChunk: "decodePCM16 silentChunk = replicate 7680 0"
  using decodePCM16_zeros [of 7680] by (simp add: silentChunk_def)

lemma sliceBlocks_one_block: "sliceBlocks (replicate 7680 0) [] = ([], [replicate 7680 0])"
  by (subst sliceBlocks.simps, simp add: bufferSize_def, subst sliceBlocks.simps, simp add: bufferSize_def)

text \<open>
  What \<^verbatim>\<open>stop\<close> does for every state: queue and reassembly buffer are emptied, playback and
  the check interval are off, and with a running context the gain is held at its current value
  and ramped linearly to 0 over 0.1 s. No other method makes a gain call.
\<close>

lemma stop_resets:
  "audioQueue (fst (stop env s)) = [] \<and> processingBuffer (fst (stop env s)) = []
   \<and> \<not> isPlaying (fst (stop env s)) \<and> \<not> checkInterval (fst (stop env s))
   \<and> gainCalls (snd (stop env s)) =
       (if running env
        then [GainSetValueAtTime (gainValue env) (currentTime env),
              GainLinearRampToValueAtTime 0 (currentTime env + 1 / 10)]
        else [])
   \<and> startTimes (snd (stop env s)) = []"
  by (simp add: stop_def gainCalls_append startTimes_append)

lemma addPCM16Data_gainCalls: "gainCalls (snd (addPCM16Data env s chunk)) = []"
  unfolding addPCM16Data_def Let_def
  using scheduleNextBuffer_props by (simp split: prod.splits)

lemma streamer_step_gainCalls:
  "ev \<noteq> Stop \<Longrightarrow> gainCalls (snd (streamer_step s (env, ev))) = []"
  by (cases ev)
     (simp_all add: addPCM16Data_gainCalls scheduleNextBuffer_props checkIntervalTick_def
        sourceEnded_def)

lemma streamer_run_gainCalls:
  "\<forall>e \<in> set es. snd e \<noteq> Stop \<Longrightarrow> gainCalls (snd (streamer_run s es)) = []"
proof (induction es arbitrary: s)
  case Nil
  then show ?case by simp
next
  case (Cons e es)
  obtain env ev where e: "e = (env, ev)" by (cases e)
  have "ev \<noteq> Stop" using Cons.prems e by simp
  then have "gainCalls (snd (streamer_step s e)) = []"
    unfolding e by (rule streamer_step_gainCalls)
  moreover have "gainCalls (snd (streamer_run (fst (streamer_step s e)) es)) = []"
    using Cons by simp
  ultimately show ?case by (simp only: streamer_run_Cons(2) gainCalls_append append_Nil)
qed

lemma addPCM16Data_first_block: "addPCM16Data (audioAt 0) (newAudioStreamer 24000) silentChunk =
   ((newAudioStreamer 24000)\<lparr>isPlaying := True, scheduledTime := 21/50, sourceCount := 1,
       endOfQueueAudioSource := Some 0, onendedSource := Some 0, checkInterval := True\<rparr>,
    [SourceStart 0 (replicate 7680 0) (1/10), SetInterval])"
  by (simp add: addPCM16Data_def decode_silentChunk newAudioStreamer_def sliceBlocks_one_block
        audioAt_def scheduleNextBuffer_def scheduleBlock_def Let_def SCHEDULE_AHEAD_TIME_def
        initialBufferTime_def bufferSize_def)

text \<open>
  C8, evaluated on a stream that is stopped and followed by a new stream. A new streamer
  (context running, gain 1) receives one block at clock time 0, \<^verbatim>\<open>stop()\<close> runs at 0.05 s, and
  a second block arrives at 1 s. The second block is scheduled as from a fresh state (it
  starts at 1.1 s, after the initial buffering delay), but the only gain calls of the whole run
  are those of \<^verbatim>\<open>stop()\<close>: the last one ramps the gain to 0 at 0.15 s and nothing raises it
  again, so the second stream goes through a gain of 0.
\<close>

theorem stop_then_stream_gain_left_at_zero:
  "gainCalls (snd (streamer_run (newAudioStreamer 24000)
       [(audioAt 0, AddPCM16Data silentChunk), (audioAt (1/20), Stop),
        (audioAt 1, AddPCM16Data silentChunk)]))
     = [GainSetValueAtTime 1 (1/20), GainLinearRampToValueAtTime 0 (3/20)]
   \<and> startTimes (snd (streamer_run (newAudioStreamer 24000)
       [(audioAt 0, AddPCM16Data silentChunk), (audioAt (1/20), Stop),
        (audioAt 1, AddPCM16Data silentChunk)]))
     = [1/10, 11/10]"
  by (simp add: addPCM16Data_first_block stop_def addPCM16Data_def decode_silentChunk
        newAudioStreamer_def sliceBlocks_one_block audioAt_def scheduleNextBuffer_def
        scheduleBlock_def Let_def SCHEDULE_AHEAD_TIME_def initialBufferTime_def bufferSize_def)

end
